theory Spec2Isabelle
  imports Main "HOL-Library.AList"
begin

section \<open>Shared data types\<close>

text \<open>
  \<^verbatim>\<open>models/LogData.ts\<close>, \<^verbatim>\<open>models/ManagedProcess.ts\<close> and \<^verbatim>\<open>models/errors.ts\<close>.
  A JavaScript \<^verbatim>\<open>Date\<close> is its number of milliseconds, a \<^verbatim>\<open>number\<close> that the
  code uses as a count, a pid or an exit code is an \<open>int\<close>, and every \<^verbatim>\<open>new Date()\<close>
  is a clock reading handed to the operation as an argument.
\<close>

type_synonym Date = int

datatype LogType = stdout | stderr

record LogEntry =
  type :: LogType
  line :: string
  timestamp :: Date

type_synonym ProcessLogs = "LogEntry list"

text \<open>\<^verbatim>\<open>LogData\<close> and the buffer's \<^verbatim>\<open>LogBufferElement\<close> have the same two fields.\<close>

record LogData =
  logs :: ProcessLogs
  lastUpdated :: Date

type_synonym LogBufferElement = LogData

datatype ProcessStatus = running | stopped | error

record ManagedProcess =
  proc_id :: string
  pid :: int
  command :: string
  args :: "string list"
  cwd :: string
  status :: ProcessStatus
  startTime :: Date
  endTime :: "Date option"
  exitCode :: "int option"

datatype ErrorType =
  INVALID_COMMAND | DIRECTORY_NOT_FOUND | PROCESS_NOT_FOUND | SPAWN_FAILED
  | TERMINATION_FAILED | PERMISSION_DENIED | VALIDATION_ERROR | TIMEOUT_ERROR
  | RESOURCE_EXHAUSTED | INTERNAL_ERROR | CONCURRENT_ACCESS

record ProcessError =
  err_type :: ErrorType
  details :: string
  err_processId :: "string option"

text \<open>
  What an operation throws: a \<^verbatim>\<open>ProcessError\<close>, or another JavaScript error that
  passes through uncaught (its message).
\<close>

datatype thrown = ProcessErr ProcessError | JsError string

section \<open>Configuration\<close>

record Config =
  maxLogLinesPerProcesses :: int
  maxConcurrentProcesses :: int
  processTerminationTimeoutMs :: int
  loggingEnabled :: "bool option"

definition getMaxLogLinesPerProcesses :: "Config \<Rightarrow> int" where
  "getMaxLogLinesPerProcesses config = maxLogLinesPerProcesses config"

definition getProcessTerminationTimeoutMs :: "Config \<Rightarrow> int" where
  "getProcessTerminationTimeoutMs config = processTerminationTimeoutMs config"

section \<open>The output buffer (\<^verbatim>\<open>ProcessLogBufferImpl\<close>)\<close>

text \<open>
  \<^verbatim>\<open>Array.prototype.slice(start)\<close> for an integer \<open>start\<close>: a negative start counts
  from the end and is clamped at the front, a non-negative one is clamped at the length.
  In \<^verbatim>\<open>slice(-n)\<close> with \<open>n = 0\<close> the start is \<open>0\<close>, so the whole array comes back.
\<close>

definition slice :: "int \<Rightarrow> 'a list \<Rightarrow> 'a list" where
  "slice start xs =
     (let len = int (length xs);
          k = (if start < 0 then max (len + start) 0 else min start len)
      in drop (nat k) xs)"

abbreviation LF :: char where "LF \<equiv> CHR 0x0A"
abbreviation CR :: char where "CR \<equiv> CHR 0x0D"

text \<open>
  \<^verbatim>\<open>data.split(/\r?\n/)\<close>: the scan goes left to right, a line feed (with the
  carriage return just before it, when there is one) ends the current piece, and what
  is left after the last separator is the last piece. \<open>cur\<close> is the piece being read.
\<close>

fun split_newlines :: "string \<Rightarrow> string \<Rightarrow> string list" where
  "split_newlines cur [] = [cur]"
| "split_newlines cur (c # cs) =
     (if c = LF then cur # split_newlines [] cs
      else if c = CR \<and> cs \<noteq> [] \<and> hd cs = LF then cur # split_newlines [] (tl cs)
      else split_newlines (cur @ [c]) cs)"

definition parseLines :: "string \<Rightarrow> string list" where
  "parseLines data =
     (if data = [] then []
      else filter (\<lambda>line. length line > 0) (split_newlines [] data))"

record ProcessLogBuffer =
  buffers :: "string \<rightharpoonup> LogBufferElement"
  maxLines :: int

definition newProcessLogBuffer :: "Config \<Rightarrow> ProcessLogBuffer" where
  "newProcessLogBuffer configService =
     \<lparr>buffers = Map.empty, maxLines = getMaxLogLinesPerProcesses configService\<rparr>"

text \<open>
  \<open>getOrCreateBuffer\<close> returns the buffer of the id and the store in which it is
  registered; \<open>now\<close> is the clock reading of its \<^verbatim>\<open>new Date()\<close>.
\<close>

definition getOrCreateBuffer ::
  "ProcessLogBuffer \<Rightarrow> string \<Rightarrow> Date \<Rightarrow> LogBufferElement \<times> ProcessLogBuffer" where
  "getOrCreateBuffer b processId now =
     (case buffers b processId of
        Some buffer \<Rightarrow> (buffer, b)
      | None \<Rightarrow>
          (let buffer = \<lparr>logs = [], lastUpdated = now\<rparr>
           in (buffer, b\<lparr>buffers := (buffers b)(processId \<mapsto> buffer)\<rparr>)))"

definition enforceBufferLimits :: "int \<Rightarrow> LogBufferElement \<Rightarrow> LogBufferElement" where
  "enforceBufferLimits maxl buffer =
     (if int (length (logs buffer)) > maxl
      then buffer\<lparr>logs := slice (- maxl) (logs buffer)\<rparr>
      else buffer)"

text \<open>
  \<open>appendStdout\<close> and \<open>appendStderr\<close> differ in the tag only. When the chunk has a
  line, the clock reading of the entries replaces the one the buffer was created with,
  so one reading \<open>now\<close> stands for both.
\<close>

definition append :: "LogType \<Rightarrow> ProcessLogBuffer \<Rightarrow> string \<Rightarrow> string \<Rightarrow> Date \<Rightarrow> ProcessLogBuffer" where
  "append ty b processId data now =
     (let (buffer, b1) = getOrCreateBuffer b processId now;
          lines = parseLines data
      in if length lines > 0
         then
           (let entries = map (\<lambda>l. \<lparr>type = ty, line = l, timestamp = now\<rparr>) lines;
                pushed = buffer\<lparr>logs := logs buffer @ entries\<rparr>;
                limited = enforceBufferLimits (maxLines b1) pushed
            in b1\<lparr>buffers := (buffers b1)(processId \<mapsto> limited\<lparr>lastUpdated := now\<rparr>)\<rparr>)
         else b1)"

definition appendStdout :: "ProcessLogBuffer \<Rightarrow> string \<Rightarrow> string \<Rightarrow> Date \<Rightarrow> ProcessLogBuffer" where
  "appendStdout = append stdout"

definition appendStderr :: "ProcessLogBuffer \<Rightarrow> string \<Rightarrow> string \<Rightarrow> Date \<Rightarrow> ProcessLogBuffer" where
  "appendStderr = append stderr"

definition getLatestLogs :: "ProcessLogBuffer \<Rightarrow> string \<Rightarrow> int option \<Rightarrow> Date \<Rightarrow> LogData" where
  "getLatestLogs b processId lines now =
     (case buffers b processId of
        None \<Rightarrow> \<lparr>logs = [], lastUpdated = now\<rparr>
      | Some buffer \<Rightarrow>
          \<lparr>logs = (case lines of
                     None \<Rightarrow> logs buffer
                   | Some n \<Rightarrow> if n > 0 then slice (- n) (logs buffer) else logs buffer),
           lastUpdated = lastUpdated buffer\<rparr>)"

definition clearLogs :: "ProcessLogBuffer \<Rightarrow> string \<Rightarrow> ProcessLogBuffer" where
  "clearLogs b processId = b\<lparr>buffers := (buffers b)(processId := None)\<rparr>"

section \<open>The handle layer as seen by the supervisor\<close>

text \<open>
  The supervisor talks to an injected \<^verbatim>\<open>ProcessController\<close>. What the controller
  answers is not decided by the supervisor, so each answer is an argument of the
  operation that asks for it: a call either returns or throws an error with a message.
  The calls the supervisor makes are recorded, in order, in \<open>ctl_calls\<close>.
\<close>

record ProcessSpawnConfig =
  cfg_command :: string
  cfg_args :: "string list option"
  cfg_cwd :: "string option"
  cfg_env :: "(string \<times> string) list option"

record ProcessSpawnResult =
  sr_pid :: int

datatype 'a outcome = Returned 'a | Threw string

text \<open>
  \<open>Kill p force\<close> is \<^verbatim>\<open>kill(p)\<close> (\<open>force = False\<close>, the default, SIGTERM) or
  \<^verbatim>\<open>kill(p, true)\<close> (SIGKILL); \<open>WaitForExit p t\<close> is \<^verbatim>\<open>waitForExit(p)\<close> when \<open>t\<close> is
  \<open>None\<close> and \<^verbatim>\<open>waitForExit(p, t)\<close> otherwise.
\<close>

datatype ctl_call =
  Spawn ProcessSpawnConfig
  | Kill int bool
  | WaitForExit int "int option"

text \<open>
  \<^verbatim>\<open>ProcessControllerImpl.kill\<close>: a child process is represented by what its own
  \<^verbatim>\<open>kill(signal)\<close> answers; the result is the answer and the signal sent, if any.
\<close>

datatype signal = SIGTERM | SIGKILL

definition kill :: "(int \<rightharpoonup> (signal \<Rightarrow> bool)) \<Rightarrow> int \<Rightarrow> bool \<Rightarrow> bool \<times> signal option" where
  "kill children p force =
     (case children p of
        None \<Rightarrow> (False, None)
      | Some childProcess \<Rightarrow>
          (let sig = (if force then SIGKILL else SIGTERM)
           in (childProcess sig, Some sig)))"

text \<open>The default parameter of \<^verbatim>\<open>waitForExit(pid, timeoutMs = 5000)\<close>.\<close>

definition waitForExit_timeoutMs :: "int option \<Rightarrow> int" where
  "waitForExit_timeoutMs t = (case t of None \<Rightarrow> 5000 | Some ms \<Rightarrow> ms)"

fun wait_timeouts :: "ctl_call list \<Rightarrow> int list" where
  "wait_timeouts [] = []"
| "wait_timeouts (WaitForExit p t # cs) = waitForExit_timeoutMs t # wait_timeouts cs"
| "wait_timeouts (c # cs) = wait_timeouts cs"

text \<open>
  What \<^verbatim>\<open>fs.existsSync\<close> and \<^verbatim>\<open>fs.statSync\<close> find at a path: nothing, an entry
  that is or is not a directory, or an entry whose \<^verbatim>\<open>statSync\<close> throws.
\<close>

datatype fs_entry = Absent | Present bool | StatThrows

definition validateDirectory :: "(string \<Rightarrow> fs_entry) \<Rightarrow> string \<Rightarrow> bool" where
  "validateDirectory fs dirPath =
     (case fs dirPath of
        Absent \<Rightarrow> False
      | Present isDirectory \<Rightarrow> isDirectory
      | StatThrows \<Rightarrow> False)"

text \<open>
  A lifecycle event of a handle, as the callbacks registered by \<open>setupEventHandlers\<close>
  receive it: the callbacks are closures over the process id, so an event carries the
  id, and the clock reading at which the callback runs.
\<close>

datatype lifecycle =
  OnStdout string
  | OnStderr string
  | OnExit "int option"
  | OnError string

datatype event = Event string lifecycle Date


section \<open>The supervisor (\<^verbatim>\<open>BgProcessManagerImpl\<close>)\<close>

record ProcessRecord =
  managedProcess :: ManagedProcess
  spawnResult :: ProcessSpawnResult

text \<open>
  \<open>processes\<close> is the \<^verbatim>\<open>Map\<close> of records, in insertion order (setting an existing key
  keeps its place and replaces its value, as \<open>AList.update\<close> does). Two fields record
  what has happened: \<open>ctl_calls\<close>, the calls made on the handle layer, and \<open>pending\<close>,
  the ids of the \<open>stopProcess\<close> calls that are suspended at their \<^verbatim>\<open>await\<close>.
\<close>

record BgProcessManager =
  processes :: "(string \<times> ProcessRecord) list"
  logBuffer :: ProcessLogBuffer
  ctl_calls :: "ctl_call list"
  pending :: "string list"

definition newBgProcessManager :: "ProcessLogBuffer \<Rightarrow> BgProcessManager" where
  "newBgProcessManager lb = \<lparr>processes = [], logBuffer = lb, ctl_calls = [], pending = []\<rparr>"

definition call :: "ctl_call \<Rightarrow> BgProcessManager \<Rightarrow> BgProcessManager" where
  "call c s = s\<lparr>ctl_calls := ctl_calls s @ [c]\<rparr>"

definition suspend :: "string \<Rightarrow> BgProcessManager \<Rightarrow> BgProcessManager" where
  "suspend processId s = s\<lparr>pending := pending s @ [processId]\<rparr>"

definition resume :: "string \<Rightarrow> BgProcessManager \<Rightarrow> BgProcessManager" where
  "resume processId s = s\<lparr>pending := remove1 processId (pending s)\<rparr>"

text \<open>
  \<open>uuid\<close> is what \<^verbatim>\<open>uuidv4()\<close> returns this time; the supervisor takes it as the id
  without comparing it with the ids it has.
\<close>

definition generateProcessId :: "string \<Rightarrow> string" where
  "generateProcessId uuid = uuid"

definition updateProcessStatus ::
  "BgProcessManager \<Rightarrow> string \<Rightarrow> ProcessStatus \<Rightarrow> int option \<Rightarrow> Date \<Rightarrow> BgProcessManager" where
  "updateProcessStatus s processId st code now =
     (case map_of (processes s) processId of
        None \<Rightarrow> s
      | Some record \<Rightarrow>
          s\<lparr>processes :=
              AList.update processId
                (record\<lparr>managedProcess :=
                   (managedProcess record)
                     \<lparr>status := st,
                      exitCode := code,
                      endTime := (if st \<noteq> running then Some now else None)\<rparr>\<rparr>)
                (processes s)\<rparr>)"

subsection \<open>The callbacks of \<open>setupEventHandlers\<close>\<close>

text \<open>
  \<open>setupEventHandlers\<close> registers four callbacks on the handle; the registration
  itself (adding listeners) changes nothing in the supervisor; whether it throws is part
  of what \<open>startProcess\<close> gets from outside.
  What the callbacks do when an event arrives is \<open>deliver\<close>. The error callback reads
  the clock twice, for the log entry and for the end time; one reading stands for both.
\<close>

definition onStdout :: "BgProcessManager \<Rightarrow> string \<Rightarrow> string \<Rightarrow> Date \<Rightarrow> BgProcessManager" where
  "onStdout s processId data now = s\<lparr>logBuffer := appendStdout (logBuffer s) processId data now\<rparr>"

definition onStderr :: "BgProcessManager \<Rightarrow> string \<Rightarrow> string \<Rightarrow> Date \<Rightarrow> BgProcessManager" where
  "onStderr s processId data now = s\<lparr>logBuffer := appendStderr (logBuffer s) processId data now\<rparr>"

definition onExit :: "BgProcessManager \<Rightarrow> string \<Rightarrow> int option \<Rightarrow> Date \<Rightarrow> BgProcessManager" where
  "onExit s processId code now =
     (let st = (if code = Some 0 then stopped else error)
      in updateProcessStatus s processId st code now)"

definition onError :: "BgProcessManager \<Rightarrow> string \<Rightarrow> string \<Rightarrow> Date \<Rightarrow> BgProcessManager" where
  "onError s processId msg now =
     (let s1 = s\<lparr>logBuffer :=
                  appendStderr (logBuffer s) processId (''Process error: '' @ msg @ [LF]) now\<rparr>
      in updateProcessStatus s1 processId error None now)"

fun deliver :: "BgProcessManager \<Rightarrow> event \<Rightarrow> BgProcessManager" where
  "deliver s (Event processId (OnStdout data) now) = onStdout s processId data now"
| "deliver s (Event processId (OnStderr data) now) = onStderr s processId data now"
| "deliver s (Event processId (OnExit code) now) = onExit s processId code now"
| "deliver s (Event processId (OnError msg) now) = onError s processId msg now"

subsection \<open>\<open>startProcess\<close>\<close>

text \<open>
  What \<open>startProcess\<close> gets from outside: the answer of \<^verbatim>\<open>process.cwd()\<close> (asked for
  only when the configuration gives no directory; it throws when the current directory
  is gone), the file system, the id from \<^verbatim>\<open>uuidv4()\<close>, the lifecycle events of
  earlier processes that are delivered while the spawn is awaited, the outcome of the
  spawn, the clock, and the outcome of registering the callbacks on the spawn result.
  The \<^verbatim>\<open>try\<close> block covers the spawn, the storing of the record and the registration,
  so a registration that throws is reported as \<open>SPAWN_FAILED\<close> with the record already
  stored. \<open>validateDirectory\<close> makes synchronous file system calls only, so the spawn is
  the one point of \<open>startProcess\<close> at which events are delivered.
\<close>

record StartEnv =
  process_cwd :: "string outcome"
  fs :: "string \<Rightarrow> fs_entry"
  uuidv4 :: string
  spawn_events :: "event list"
  spawn_outcome :: "ProcessSpawnResult outcome"
  start_clock :: Date
  register_outcome :: "unit outcome"

definition startProcess ::
  "BgProcessManager \<Rightarrow> ProcessSpawnConfig \<Rightarrow> StartEnv \<Rightarrow> (thrown + ManagedProcess) \<times> BgProcessManager" where
  "startProcess s config env =
     (let as = (case cfg_args config of None \<Rightarrow> [] | Some a \<Rightarrow> a)
      in case (case cfg_cwd config of None \<Rightarrow> process_cwd env | Some d \<Rightarrow> Returned d) of
           Threw msg \<Rightarrow> (Inl (JsError msg), s)
         | Returned dir \<Rightarrow>
             if \<not> validateDirectory (fs env) dir
             then (Inl (ProcessErr \<lparr>err_type = DIRECTORY_NOT_FOUND,
                                    details = ''Directory not found: '' @ dir,
                                    err_processId = None\<rparr>), s)
             else
               (let processId = generateProcessId (uuidv4 env);
                    s1 = call (Spawn \<lparr>cfg_command = cfg_command config, cfg_args = Some as,
                                      cfg_cwd = Some dir, cfg_env = cfg_env config\<rparr>) s;
                    s2 = foldl deliver s1 (spawn_events env)
                in case spawn_outcome env of
                     Threw msg \<Rightarrow>
                       (Inl (ProcessErr \<lparr>err_type = SPAWN_FAILED,
                                          details = ''Failed to spawn process: '' @ msg,
                                          err_processId = None\<rparr>), s2)
                   | Returned sr \<Rightarrow>
                       (let mp = \<lparr>proc_id = processId, pid = sr_pid sr,
                                  command = cfg_command config, args = as, cwd = dir,
                                  status = running, startTime = start_clock env,
                                  endTime = None, exitCode = None\<rparr>;
                            s3 = s2\<lparr>processes :=
                                     AList.update processId
                                       \<lparr>managedProcess = mp, spawnResult = sr\<rparr>
                                       (processes s2)\<rparr>
                        in case register_outcome env of
                             Threw msg \<Rightarrow>
                               (Inl (ProcessErr \<lparr>err_type = SPAWN_FAILED,
                                                  details = ''Failed to spawn process: '' @ msg,
                                                  err_processId = None\<rparr>), s3)
                           | Returned _ \<Rightarrow> (Inr mp, s3))))"

subsection \<open>\<open>stopProcess\<close>\<close>

text \<open>
  \<open>stopProcess\<close> runs without interruption up to its \<^verbatim>\<open>await\<close> of \<open>waitForExit\<close>
  (\<open>stopProcess_sync\<close>, which leaves the call suspended); while it waits, lifecycle
  events are delivered (\<open>wait_events\<close>); then the call resumes: the wait has returned
  or thrown (\<open>stopProcess_resume\<close>).
\<close>

record StopEnv =
  term_outcome :: "bool outcome"
  force_outcome :: "bool outcome"
  wait_events :: "event list"
  wait_outcome :: "unit outcome"
  catch_clock :: Date

datatype stop_phase = Settled "ProcessError + unit" | Awaiting

definition termination_failed ::
  "BgProcessManager \<Rightarrow> string \<Rightarrow> string \<Rightarrow> Date \<Rightarrow> (ProcessError + unit) \<times> BgProcessManager" where
  "termination_failed s processId msg now =
     (Inl \<lparr>err_type = TERMINATION_FAILED,
           details = ''Failed to stop process: '' @ msg,
           err_processId = Some processId\<rparr>,
      updateProcessStatus s processId error None now)"

definition stopProcess_sync ::
  "BgProcessManager \<Rightarrow> string \<Rightarrow> StopEnv \<Rightarrow> stop_phase \<times> BgProcessManager" where
  "stopProcess_sync s processId env =
     (case map_of (processes s) processId of
        None \<Rightarrow>
          (Settled (Inl \<lparr>err_type = PROCESS_NOT_FOUND,
                         details = ''Process not found: '' @ processId,
                         err_processId = None\<rparr>), s)
      | Some record \<Rightarrow>
          if status (managedProcess record) \<noteq> running then (Settled (Inr ()), s)
          else
            (let p = pid (managedProcess record);
                 s1 = call (Kill p False) s
             in case term_outcome env of
                  Threw msg \<Rightarrow>
                    (let (r, s') = termination_failed s1 processId msg (catch_clock env)
                     in (Settled r, s'))
                | Returned killed \<Rightarrow>
                    if killed then (Awaiting, suspend processId (call (WaitForExit p None) s1))
                    else
                      (let s2 = call (Kill p True) s1
                       in case force_outcome env of
                            Threw msg \<Rightarrow>
                              (let (r, s') = termination_failed s2 processId msg (catch_clock env)
                               in (Settled r, s'))
                          | Returned _ \<Rightarrow>
                              (Awaiting, suspend processId (call (WaitForExit p None) s2)))))"

definition stopProcess_resume ::
  "BgProcessManager \<Rightarrow> string \<Rightarrow> StopEnv \<Rightarrow> (ProcessError + unit) \<times> BgProcessManager" where
  "stopProcess_resume s processId env =
     (case wait_outcome env of
        Threw msg \<Rightarrow> termination_failed (resume processId s) processId msg (catch_clock env)
      | Returned _ \<Rightarrow> (Inr (), resume processId s))"

definition stopProcess ::
  "BgProcessManager \<Rightarrow> string \<Rightarrow> StopEnv \<Rightarrow> (ProcessError + unit) \<times> BgProcessManager" where
  "stopProcess s processId env =
     (case stopProcess_sync s processId env of
        (Settled r, s1) \<Rightarrow> (r, s1)
      | (Awaiting, s1) \<Rightarrow>
          stopProcess_resume (foldl deliver s1 (wait_events env)) processId env)"

subsection \<open>\<open>restartProcess\<close>\<close>

definition restartProcess ::
  "BgProcessManager \<Rightarrow> string \<Rightarrow> StopEnv \<Rightarrow> StartEnv \<Rightarrow> (thrown + string) \<times> BgProcessManager" where
  "restartProcess s processId senv env =
     (case map_of (processes s) processId of
        None \<Rightarrow>
          (Inl (ProcessErr \<lparr>err_type = PROCESS_NOT_FOUND,
                             details = ''Process not found: '' @ processId,
                             err_processId = None\<rparr>), s)
      | Some record \<Rightarrow>
          (let config = \<lparr>cfg_command = command (managedProcess record),
                         cfg_args = Some (args (managedProcess record)),
                         cfg_cwd = Some (cwd (managedProcess record)),
                         cfg_env = None\<rparr>;
               (stopResult, s1) =
                  (if status (managedProcess record) = running
                   then stopProcess s processId senv
                   else (Inr (), s))
           in case stopResult of
                Inl e \<Rightarrow> (Inl (ProcessErr e), s1)
              | Inr _ \<Rightarrow>
                  (let s2 = s1\<lparr>processes := AList.delete processId (processes s1),
                               logBuffer := clearLogs (logBuffer s1) processId\<rparr>
                   in case startProcess s2 config env of
                        (Inl e, s3) \<Rightarrow> (Inl e, s3)
                      | (Inr newProcess, s3) \<Rightarrow> (Inr (proc_id newProcess), s3))))"

subsection \<open>\<open>stopAllProcesses\<close>\<close>

text \<open>
  Every \<open>stopProcess\<close> of \<open>stopAllProcesses\<close> is started, in the order of the collected
  ids, before any of them resumes: each runs up to its \<^verbatim>\<open>await\<close>. The waits are then
  taken to end in the same order, each after the events delivered meanwhile.
  \<^verbatim>\<open>Promise.allSettled\<close> waits for every one of them, keeps every result
  (\<open>stopAll_settled\<close>) and never rejects; \<open>stopAllProcesses\<close> drops the results.
\<close>

definition runningProcesses :: "BgProcessManager \<Rightarrow> string list" where
  "runningProcesses s =
     map (\<lambda>r. proc_id (managedProcess r))
       (filter (\<lambda>r. status (managedProcess r) = running) (map snd (processes s)))"

fun stopAll_sync ::
  "BgProcessManager \<Rightarrow> (string \<Rightarrow> StopEnv) \<Rightarrow> string list \<Rightarrow> (string \<times> stop_phase) list \<times> BgProcessManager" where
  "stopAll_sync s envs [] = ([], s)"
| "stopAll_sync s envs (i # ids) =
     (let (ph, s1) = stopProcess_sync s i (envs i);
          (rest, s2) = stopAll_sync s1 envs ids
      in ((i, ph) # rest, s2))"

fun stopAll_settle ::
  "BgProcessManager \<Rightarrow> (string \<Rightarrow> StopEnv) \<Rightarrow> (string \<times> stop_phase) list \<Rightarrow> (ProcessError + unit) list \<times> BgProcessManager" where
  "stopAll_settle s envs [] = ([], s)"
| "stopAll_settle s envs ((i, Settled r) # ps) =
     (let (rs, s1) = stopAll_settle s envs ps in (r # rs, s1))"
| "stopAll_settle s envs ((i, Awaiting) # ps) =
     (let (r, s1) = stopProcess_resume (foldl deliver s (wait_events (envs i))) i (envs i);
          (rs, s2) = stopAll_settle s1 envs ps
      in (r # rs, s2))"


definition stopAll_settled ::
  "BgProcessManager \<Rightarrow> (string \<Rightarrow> StopEnv) \<Rightarrow> (ProcessError + unit) list \<times> BgProcessManager" where
  "stopAll_settled s envs =
     (let (started, s1) = stopAll_sync s envs (runningProcesses s)
      in stopAll_settle s1 envs started)"

definition stopAllProcesses ::
  "BgProcessManager \<Rightarrow> (string \<Rightarrow> StopEnv) \<Rightarrow> (ProcessError + unit) \<times> BgProcessManager" where
  "stopAllProcesses s envs = (Inr (), snd (stopAll_settled s envs))"

subsection \<open>Queries\<close>


definition getProcessInfo :: "BgProcessManager \<Rightarrow> string \<Rightarrow> ManagedProcess option" where
  "getProcessInfo s processId =
     (case map_of (processes s) processId of
        None \<Rightarrow> None
      | Some record \<Rightarrow> Some (managedProcess record))"


section \<open>The stop-all tool (\<^verbatim>\<open>StopAllHandler\<close>)\<close>


fun show_nat :: "nat \<Rightarrow> string" where
  "show_nat n =
     (if n < 10 then [char_of (48 + n)]
      else show_nat (n div 10) @ [char_of (48 + n mod 10)])"


section \<open>Reachable supervisor states\<close>

text \<open>
  The supervisor starts empty and changes by the public operations and by the delivery
  of lifecycle events, with any answers from outside.
\<close>

inductive reachable :: "BgProcessManager \<Rightarrow> bool" where
  r_init: "reachable (newBgProcessManager (newProcessLogBuffer config))"
| r_start: "reachable s \<Longrightarrow> reachable (snd (startProcess s config env))"
| r_stop: "reachable s \<Longrightarrow> reachable (snd (stopProcess s processId senv))"
| r_restart: "reachable s \<Longrightarrow> reachable (snd (restartProcess s processId senv env))"
| r_stopAll: "reachable s \<Longrightarrow> reachable (snd (stopAllProcesses s envs))"
| r_event: "reachable s \<Longrightarrow> reachable (deliver s ev)"


section \<open>Sequences of appends\<close>

text \<open>
  A call of \<open>appendStdout\<close> or \<open>appendStderr\<close>: the stream, the process id, the chunk
  and the clock reading. \<open>entries_of\<close> lists the entries that the calls addressed to
  one id produce, in call order, before any is dropped.
\<close>

datatype append_call = Append LogType string string Date

fun run_append :: "ProcessLogBuffer \<Rightarrow> append_call \<Rightarrow> ProcessLogBuffer" where
  "run_append b (Append stdout processId data now) = appendStdout b processId data now"
| "run_append b (Append stderr processId data now) = appendStderr b processId data now"

definition run_appends :: "ProcessLogBuffer \<Rightarrow> append_call list \<Rightarrow> ProcessLogBuffer" where
  "run_appends b cs = foldl run_append b cs"

fun entries_of :: "string \<Rightarrow> append_call list \<Rightarrow> LogEntry list" where
  "entries_of processId [] = []"
| "entries_of processId (Append ty p data now # cs) =
     (if p = processId
      then map (\<lambda>l. \<lparr>type = ty, line = l, timestamp = now\<rparr>) (parseLines data)
      else []) @ entries_of processId cs"

text \<open>What a buffer store holds for an id (nothing when the id has no buffer).\<close>

definition stored :: "ProcessLogBuffer \<Rightarrow> string \<Rightarrow> LogEntry list" where
  "stored b processId = (case buffers b processId of None \<Rightarrow> [] | Some buffer \<Rightarrow> logs buffer)"

text \<open>
  A chunk written as its newline-terminated lines, each ended by a line feed or by a
  carriage return and a line feed (\<open>True\<close>), with the text that follows them. Every
  chunk can be written so in exactly one way when the text of a line has no line feed
  and, before a bare line feed, does not end with a carriage return (that carriage
  return would belong to the line end), and the text after the last line has no line
  feed.
\<close>

fun terminated :: "(string \<times> bool) list \<Rightarrow> string" where
  "terminated [] = []"
| "terminated ((l, crlf) # ls) = l @ (if crlf then [CR, LF] else [LF]) @ terminated ls"

definition line_ok :: "string \<times> bool \<Rightarrow> bool" where
  "line_ok x = (LF \<notin> set (fst x) \<and> (snd x \<or> fst x = [] \<or> last (fst x) \<noteq> CR))"

text \<open>
  The escalation of \<open>stop\<close> in the words of the specification: the non-forceful signal
  first; the forceful one only if the first could not be delivered; then the wait; the
  first call that throws ends the sequence. \<open>spec_stop_calls\<close> is the sequence of calls
  on the handle layer, \<open>spec_stop_thrown\<close> the message of the call that throws, if any.
\<close>

definition spec_stop_calls :: "int \<Rightarrow> StopEnv \<Rightarrow> ctl_call list" where
  "spec_stop_calls p senv =
     [Kill p False]
     @ (if term_outcome senv = Returned False then [Kill p True] else [])
     @ (if (\<exists>m. term_outcome senv = Threw m)
           \<or> (term_outcome senv = Returned False \<and> (\<exists>m. force_outcome senv = Threw m))
        then [] else [WaitForExit p None])"

definition spec_stop_thrown :: "StopEnv \<Rightarrow> string option" where
  "spec_stop_thrown senv =
     (case term_outcome senv of
        Threw m \<Rightarrow> Some m
      | Returned delivered \<Rightarrow>
          (case (if delivered then Returned True else force_outcome senv) of
             Threw m \<Rightarrow> Some m
           | Returned _ \<Rightarrow>
               (case wait_outcome senv of Threw m \<Rightarrow> Some m | Returned _ \<Rightarrow> None)))"

text \<open>
  What holds of the fields of a record in every reachable state, and of the map: a
  record is stored under its own id and the keys of the map are distinct.
\<close>

definition record_ok :: "ManagedProcess \<Rightarrow> bool" where
  "record_ok mp =
     (case status mp of
        running \<Rightarrow> endTime mp = None \<and> exitCode mp = None
      | stopped \<Rightarrow> endTime mp \<noteq> None \<and> exitCode mp = Some 0
      | error \<Rightarrow> endTime mp \<noteq> None)"

definition consistent :: "BgProcessManager \<Rightarrow> bool" where
  "consistent s =
     (distinct (map fst (processes s))
      \<and> (\<forall>x \<in> set (processes s).
            proc_id (managedProcess (snd x)) = fst x \<and> record_ok (managedProcess (snd x))))"


section \<open>Concrete inputs\<close>

definition config2 :: Config where
  "config2 = \<lparr>maxLogLinesPerProcesses = 2, maxConcurrentProcesses = 10,
              processTerminationTimeoutMs = 100, loggingEnabled = None\<rparr>"

definition three_lines :: "append_call list" where
  "three_lines =
     [Append stdout ''p'' ''Line 1'' 1, Append stderr ''q'' ''other'' 2,
      Append stdout ''p'' ''Line 2'' 3, Append stderr ''p'' ''Line 3'' 4]"

definition one_line_buffer :: ProcessLogBuffer where
  "one_line_buffer = appendStdout (newProcessLogBuffer config2) ''p'' ''x'' 1"

definition two_piece_chunk :: string where
  "two_piece_chunk = [CHR ''a'', LF, CHR ''b'']"

definition mixed_chunk :: string where
  "mixed_chunk = [CHR ''a'', CR, CHR ''b'', CR, LF, LF, CHR ''c'', CR]"

definition fs_tmp :: "string \<Rightarrow> fs_entry" where
  "fs_tmp path =
     (if path = ''/tmp'' then Present True
      else if path = ''/etc/passwd'' then Present False
      else Absent)"

definition env_a :: StartEnv where
  "env_a = \<lparr>process_cwd = Returned ''/tmp'', fs = fs_tmp, uuidv4 = ''a'', spawn_events = [],
            spawn_outcome = Returned \<lparr>sr_pid = 1000\<rparr>, start_clock = 1,
            register_outcome = Returned ()\<rparr>"

definition env_b :: StartEnv where
  "env_b = \<lparr>process_cwd = Returned ''/tmp'', fs = fs_tmp, uuidv4 = ''b'', spawn_events = [],
            spawn_outcome = Returned \<lparr>sr_pid = 1001\<rparr>, start_clock = 20,
            register_outcome = Returned ()\<rparr>"

definition env_late :: StartEnv where
  "env_late = env_b\<lparr>spawn_events := [Event ''a'' (OnStdout ''late'') 15]\<rparr>"



definition env_nocwd :: StartEnv where
  "env_nocwd = \<lparr>process_cwd = Threw ''ENOENT: uv_cwd'', fs = fs_tmp, uuidv4 = ''e'', spawn_events = [],
                spawn_outcome = Returned \<lparr>sr_pid = 1003\<rparr>, start_clock = 40,
                register_outcome = Returned ()\<rparr>"

definition echo :: ProcessSpawnConfig where
  "echo = \<lparr>cfg_command = ''echo'', cfg_args = Some [''hello''], cfg_cwd = None, cfg_env = None\<rparr>"


definition init2 :: BgProcessManager where
  "init2 = newBgProcessManager (newProcessLogBuffer config2)"

definition s_running :: BgProcessManager where
  "s_running = snd (startProcess init2 echo env_a)"

definition s_stopped :: BgProcessManager where
  "s_stopped = deliver s_running (Event ''a'' (OnExit (Some 0)) 5)"

definition s_error :: BgProcessManager where
  "s_error = deliver s_running (Event ''a'' (OnError ''boom'') 9)"

definition senv_clean :: StopEnv where
  "senv_clean = \<lparr>term_outcome = Returned True, force_outcome = Returned True,
                 wait_events = [Event ''a'' (OnExit (Some 0)) 5],
                 wait_outcome = Returned (), catch_clock = 6\<rparr>"

definition senv_gone :: StopEnv where
  "senv_gone = \<lparr>term_outcome = Returned False, force_outcome = Returned False,
                wait_events = [], wait_outcome = Threw ''Process 1000 not found'',
                catch_clock = 6\<rparr>"





definition config1000 :: Config where
  "config1000 = \<lparr>maxLogLinesPerProcesses = 1000, maxConcurrentProcesses = 10,
                 processTerminationTimeoutMs = 5000, loggingEnabled = None\<rparr>"

text \<open>The appends of \<^verbatim>\<open>Line i\<close> for \<open>i\<close> from \<open>lo\<close> up to, not including, \<open>hi\<close>.\<close>

definition numbered_line :: "nat \<Rightarrow> append_call" where
  "numbered_line i = Append stdout ''p'' (''Line '' @ show_nat i) (int i)"

definition numbered_entry :: "nat \<Rightarrow> LogEntry" where
  "numbered_entry i = \<lparr>type = stdout, line = ''Line '' @ show_nat i, timestamp = int i\<rparr>"

section \<open>The output buffer: ceiling and reads\<close>

declare show_nat.simps [simp del]

lemma slice_neg: "0 < n \<Longrightarrow> slice (- n) xs = drop (length xs - nat n) xs"
  by (auto simp: slice_def Let_def max_def nat_diff_distrib')

lemma enforce_logs:
  "0 < m \<Longrightarrow> logs (enforceBufferLimits m buffer) = drop (length (logs buffer) - nat m) (logs buffer)"
  by (auto simp: enforceBufferLimits_def slice_neg)

lemma drop_suffix_app:
  "drop (length (drop (length xs - m) xs @ ys) - m) (drop (length xs - m) xs @ ys)
     = drop (length (xs @ ys) - m) (xs @ ys)"
  by (cases "length xs \<le> m") (auto simp: add.commute)

lemma stored_read: "logs (getLatestLogs b p None now) = stored b p"
  by (simp add: getLatestLogs_def stored_def split: option.splits)

lemma read_limit:
  "logs (getLatestLogs b p (Some n) now) =
     (if 0 < n then drop (length (stored b p) - nat n) (stored b p) else stored b p)"
  by (auto simp: getLatestLogs_def stored_def slice_neg split: option.splits)

lemma maxLines_append [simp]: "maxLines (append ty b p data now) = maxLines b"
  by (auto simp: append_def getOrCreateBuffer_def Let_def split: option.splits)

lemma stored_append_other:
  "p \<noteq> q \<Longrightarrow> stored (append ty b p data now) q = stored b q"
  by (auto simp: stored_def append_def getOrCreateBuffer_def Let_def split: option.splits)

lemma stored_append_same:
  "0 < maxLines b \<Longrightarrow>
   stored (append ty b p data now) p =
     (let new = stored b p @ map (\<lambda>l. \<lparr>type = ty, line = l, timestamp = now\<rparr>) (parseLines data)
      in if parseLines data = [] then stored b p else drop (length new - nat (maxLines b)) new)"
  by (auto simp: stored_def append_def getOrCreateBuffer_def Let_def enforce_logs split: option.splits)

lemma run_append_eq: "run_append b (Append ty p data now) = append ty b p data now"
  by (cases ty) (simp_all add: appendStdout_def appendStderr_def)

lemma maxLines_run_appends [simp]: "maxLines (run_appends b cs) = maxLines b"
proof (induction cs rule: rev_induct)
  case Nil
  then show ?case by (simp add: run_appends_def)
next
  case (snoc c cs)
  then show ?case by (cases c) (simp add: run_appends_def run_append_eq)
qed

lemma entries_of_snoc:
  "entries_of p (cs @ [Append ty q data now]) =
     entries_of p cs @
       (if q = p then map (\<lambda>l. \<lparr>type = ty, line = l, timestamp = now\<rparr>) (parseLines data) else [])"
  by (induction p cs rule: entries_of.induct) auto

text \<open>
  The store after a run of appends holds, for each id, the last \<open>maxLines\<close> of what it
  held before followed by the entries addressed to that id.
\<close>

lemma stored_run_appends:
  assumes "0 < maxLines b" and "length (stored b p) \<le> nat (maxLines b)"
  shows "stored (run_appends b cs) p =
           drop (length (stored b p @ entries_of p cs) - nat (maxLines b))
             (stored b p @ entries_of p cs)"
proof (induction cs rule: rev_induct)
  case Nil
  with assms show ?case by (simp add: run_appends_def)
next
  case (snoc c cs)
  obtain ty q data now where c: "c = Append ty q data now" by (cases c) auto
  let ?b = "run_appends b cs"
  let ?new = "map (\<lambda>l. \<lparr>type = ty, line = l, timestamp = now\<rparr>) (parseLines data)"
  have step: "run_appends b (cs @ [Append ty q data now]) = append ty ?b q data now"
    by (simp add: run_appends_def run_append_eq)
  show ?case
  proof (cases "q = p")
    case False
    then show ?thesis
      using snoc unfolding c step by (simp add: stored_append_other entries_of_snoc)
  next
    case True
    show ?thesis
    proof (cases "parseLines data = []")
      case True
      then show ?thesis
        using snoc \<open>q = p\<close> assms(1) unfolding c step
        by (simp add: stored_append_same entries_of_snoc)
    next
      case False
      have "stored (run_appends b (cs @ [Append ty q data now])) p =
              drop (length (stored ?b p @ ?new) - nat (maxLines b)) (stored ?b p @ ?new)"
        unfolding step using False \<open>q = p\<close> assms(1)
        by (simp add: stored_append_same Let_def)
      also have "\<dots> = drop (length ((stored b p @ entries_of p cs) @ ?new) - nat (maxLines b))
                          ((stored b p @ entries_of p cs) @ ?new)"
        unfolding snoc.IH by (rule drop_suffix_app)
      finally show ?thesis
        using \<open>q = p\<close> unfolding c by (simp add: entries_of_snoc)
    qed
  qed
qed

text \<open>
  Claim C1, as amended. With a positive ceiling, after any sequence of appends (to any
  ids, on either stream) the buffer of an id that held at most the ceiling before holds
  exactly the last \<open>maxLines\<close> entries of its old content followed by the entries
  addressed to it, in call order: at most the ceiling, oldest dropped first. A read
  with no limit returns the whole retained sequence; a read with a limit \<open>n > 0\<close>
  returns its last \<open>min n length\<close> entries in order; a read with a limit \<open>n \<le> 0\<close>
  returns the whole retained sequence, as a read with no limit does.
\<close>

theorem buffer_ceiling_and_read:
  assumes "0 < maxLines b"
    and "length (logs (getLatestLogs b processId None t0)) \<le> nat (maxLines b)"
  shows "logs (getLatestLogs (run_appends b cs) processId None now) =
           drop (length (logs (getLatestLogs b processId None t0) @ entries_of processId cs)
                   - nat (maxLines b))
             (logs (getLatestLogs b processId None t0) @ entries_of processId cs)
         \<and> length (logs (getLatestLogs (run_appends b cs) processId None now)) \<le> nat (maxLines b)
         \<and> (0 < n \<longrightarrow>
              logs (getLatestLogs c processId (Some n) now) =
                drop (length (logs (getLatestLogs c processId None now)) - nat n)
                  (logs (getLatestLogs c processId None now))
              \<and> length (logs (getLatestLogs c processId (Some n) now)) =
                  min (nat n) (length (logs (getLatestLogs c processId None now))))
         \<and> (n \<le> 0 \<longrightarrow>
              logs (getLatestLogs c processId (Some n) now) =
                logs (getLatestLogs c processId None now))"
proof -
  have run: "stored (run_appends b cs) processId =
      drop (length (stored b processId @ entries_of processId cs) - nat (maxLines b))
        (stored b processId @ entries_of processId cs)"
    using assms by (intro stored_run_appends) (simp_all add: stored_read)
  have len: "length (stored (run_appends b cs) processId) \<le> nat (maxLines b)"
    unfolding run by simp
  have pos: "0 < n \<longrightarrow>
      logs (getLatestLogs c processId (Some n) now) =
        drop (length (stored c processId) - nat n) (stored c processId)
      \<and> length (logs (getLatestLogs c processId (Some n) now)) =
          min (nat n) (length (stored c processId))"
    by (auto simp: read_limit)
  have nonpos: "n \<le> 0 \<longrightarrow>
      logs (getLatestLogs c processId (Some n) now) = stored c processId"
    by (simp add: read_limit)
  show ?thesis
    using run len pos nonpos by (simp only: stored_read)
qed

theorem buffer_ceiling_and_read_witness:
  "map line (logs (getLatestLogs (run_appends (newProcessLogBuffer config2) three_lines) ''p'' None 9))
     = [''Line 2'', ''Line 3'']
   \<and> map line (logs (getLatestLogs (run_appends (newProcessLogBuffer config2) three_lines) ''p'' (Some 1) 9))
     = [''Line 3'']"
proof -
  let ?b = "newProcessLogBuffer config2"
  have h1: "0 < maxLines ?b"
    by (simp add: newProcessLogBuffer_def getMaxLogLinesPerProcesses_def config2_def)
  have h2: "length (logs (getLatestLogs ?b ''p'' None 0)) \<le> nat (maxLines ?b)"
    by (simp add: newProcessLogBuffer_def getLatestLogs_def)
  have m: "nat (maxLines ?b) = 2"
    by (simp add: newProcessLogBuffer_def getMaxLogLinesPerProcesses_def config2_def)
  have e: "map line (entries_of ''p'' three_lines) = [''Line 1'', ''Line 2'', ''Line 3'']"
    by (simp add: three_lines_def parseLines_def)
  have old: "logs (getLatestLogs ?b ''p'' None 0) = []"
    by (simp add: newProcessLogBuffer_def getLatestLogs_def)
  note inst = buffer_ceiling_and_read [OF h1 h2, of three_lines 9 1 "run_appends ?b three_lines"]
  have "logs (getLatestLogs (run_appends ?b three_lines) ''p'' None 9) =
          drop (length (entries_of ''p'' three_lines) - 2) (entries_of ''p'' three_lines)"
    using inst unfolding old m by simp
  then have "map line (logs (getLatestLogs (run_appends ?b three_lines) ''p'' None 9)) =
          drop (length (map line (entries_of ''p'' three_lines)) - 2)
            (map line (entries_of ''p'' three_lines))"
    by (simp add: drop_map)
  then have full: "map line (logs (getLatestLogs (run_appends ?b three_lines) ''p'' None 9))
                = [''Line 2'', ''Line 3'']"
    unfolding e by simp
  have "logs (getLatestLogs (run_appends ?b three_lines) ''p'' (Some 1) 9) =
          drop (length (logs (getLatestLogs (run_appends ?b three_lines) ''p'' None 9)) - nat 1)
            (logs (getLatestLogs (run_appends ?b three_lines) ''p'' None 9))"
    using inst by simp
  then have "map line (logs (getLatestLogs (run_appends ?b three_lines) ''p'' (Some 1) 9)) =
          drop (length (map line (logs (getLatestLogs (run_appends ?b three_lines) ''p'' None 9))) - 1)
            (map line (logs (getLatestLogs (run_appends ?b three_lines) ''p'' None 9)))"
    by (simp add: drop_map)
  then show ?thesis using full by simp
qed

text \<open>
  A read with limit \<open>0\<close> of a buffer that holds one entry returns that entry, not
  \<open>min 0 1 = 0\<close> entries: the limit is applied only when it is positive.
\<close>

theorem read_limit_zero_counterexample:
  "length (logs (getLatestLogs one_line_buffer ''p'' None 2)) = 1
   \<and> length (logs (getLatestLogs one_line_buffer ''p'' (Some 0) 2)) = 1
   \<and> min (0::nat) (length (logs (getLatestLogs one_line_buffer ''p'' None 2))) = 0"
  by (simp add: one_line_buffer_def appendStdout_def append_def getOrCreateBuffer_def
      newProcessLogBuffer_def getMaxLogLinesPerProcesses_def config2_def parseLines_def
      enforceBufferLimits_def getLatestLogs_def Let_def)

section \<open>The output buffer: chunks and lines\<close>

lemma split_newlines_plain:
  "LF \<notin> set l \<Longrightarrow> split_newlines cur l = [cur @ l]"
  by (induction l arbitrary: cur) (auto dest: hd_in_set)

lemma split_newlines_LF:
  assumes "LF \<notin> set l" and "l = [] \<or> last l \<noteq> CR"
  shows "split_newlines cur (l @ LF # rest) = (cur @ l) # split_newlines [] rest"
  using assms
proof (induction l arbitrary: cur)
  case Nil
  then show ?case by simp
next
  case (Cons c l)
  have c: "c \<noteq> LF" and l: "LF \<notin> set l" using Cons.prems(1) by auto
  have no_sep: "\<not> (c = CR \<and> hd (l @ LF # rest) = LF)"
  proof (cases l)
    case Nil
    then show ?thesis using Cons.prems(2) by simp
  next
    case (Cons d l')
    then show ?thesis using l by auto
  qed
  have last_ok: "l = [] \<or> last l \<noteq> CR" using Cons.prems(2) by (cases l) auto
  show ?case using c no_sep Cons.IH [OF l last_ok] by simp
qed

lemma split_newlines_CRLF:
  assumes "LF \<notin> set l"
  shows "split_newlines cur (l @ CR # LF # rest) = (cur @ l) # split_newlines [] rest"
  using assms
proof (induction l arbitrary: cur)
  case Nil
  then show ?case by simp
next
  case (Cons c l)
  have c: "c \<noteq> LF" and l: "LF \<notin> set l" using Cons.prems by auto
  have no_sep: "hd (l @ CR # LF # rest) \<noteq> LF" using l by (cases l) auto
  show ?case using c no_sep Cons.IH [OF l] by simp
qed

lemma split_newlines_terminated:
  assumes "\<forall>x \<in> set ls. line_ok x" and "LF \<notin> set f"
  shows "split_newlines cur (terminated ls @ f) =
           (cur @ hd (map fst ls @ [f])) # tl (map fst ls @ [f])"
  using assms(1)
proof (induction ls arbitrary: cur)
  case Nil
  then show ?case using assms(2) by (simp add: split_newlines_plain)
next
  case (Cons x ls)
  obtain l crlf where x: "x = (l, crlf)" by (cases x)
  have l: "LF \<notin> set l" "crlf \<or> l = [] \<or> last l \<noteq> CR"
    using Cons.prems x by (simp_all add: line_ok_def)
  have rest: "split_newlines [] (terminated ls @ f) = map fst ls @ [f]"
    using Cons.IH [of "[]"] Cons.prems by (cases ls) auto
  show ?case
  proof (cases crlf)
    case True
    then show ?thesis using rest split_newlines_CRLF [OF l(1)] by (simp add: x)
  next
    case False
    then have "l = [] \<or> last l \<noteq> CR" using l(2) by simp
    then show ?thesis using False rest split_newlines_LF [OF l(1)] by (simp add: x)
  qed
qed

lemma parseLines_terminated:
  assumes "\<forall>x \<in> set ls. line_ok x" and "LF \<notin> set f"
  shows "parseLines (terminated ls @ f) = filter (\<lambda>l. l \<noteq> []) (map fst ls @ [f])"
proof (cases "terminated ls @ f = []")
  case True
  then have "ls = []" and "f = []" by (cases ls; auto split: if_splits)+
  then show ?thesis by (simp add: parseLines_def)
next
  case False
  have "split_newlines [] (terminated ls @ f) = map fst ls @ [f]"
    using split_newlines_terminated [OF assms, of "[]"] by (cases ls) auto
  then show ?thesis using False by (auto simp: parseLines_def)
qed

lemma chunk_decomposition:
  "\<exists>ls f. data = terminated ls @ f \<and> (\<forall>x \<in> set ls. line_ok x) \<and> LF \<notin> set f"
proof (induction data)
  case Nil
  have "[] = terminated [] @ [] \<and> (\<forall>x \<in> set []. line_ok x) \<and> LF \<notin> set []" by simp
  then show ?case by blast
next
  case (Cons c cs)
  then obtain ls f where d: "cs = terminated ls @ f" "\<forall>x \<in> set ls. line_ok x" "LF \<notin> set f"
    by blast
  show ?case
  proof (cases "c = LF")
    case True
    have "c # cs = terminated (([], False) # ls) @ f
          \<and> (\<forall>x \<in> set (([], False) # ls). line_ok x) \<and> LF \<notin> set f"
      using True d by (simp add: line_ok_def)
    then show ?thesis by blast
  next
    case False
    show ?thesis
    proof (cases ls)
      case Nil
      have "c # cs = terminated [] @ (c # f)
            \<and> (\<forall>x \<in> set []. line_ok x) \<and> LF \<notin> set (c # f)"
        using False d Nil by simp
      then show ?thesis by blast
    next
      case (Cons x ls')
      obtain l crlf where x: "x = (l, crlf)" by (cases x)
      have lx: "LF \<notin> set l" "crlf \<or> l = [] \<or> last l \<noteq> CR" and rest: "\<forall>y \<in> set ls'. line_ok y"
        using d(2) Cons x by (simp_all add: line_ok_def)
      show ?thesis
      proof (cases "l = [] \<and> \<not> crlf \<and> c = CR")
        case True
        have "c # cs = terminated (([], True) # ls') @ f
              \<and> (\<forall>y \<in> set (([], True) # ls'). line_ok y) \<and> LF \<notin> set f"
          using True d Cons x rest by (simp add: line_ok_def)
        then show ?thesis by blast
      next
        case special: False
        have ok: "line_ok (c # l, crlf)"
          using False lx special by (cases l) (auto simp: line_ok_def)
        have "c # cs = terminated ((c # l, crlf) # ls') @ f
              \<and> (\<forall>y \<in> set ((c # l, crlf) # ls'). line_ok y) \<and> LF \<notin> set f"
          using d Cons x rest ok by simp
        then show ?thesis by blast
      qed
    qed
  qed
qed

lemma stored_append_general:
  "stored (append ty b p data now) p =
     (if parseLines data = [] then stored b p
      else if int (length (stored b p) + length (parseLines data)) > maxLines b
      then slice (- maxLines b)
             (stored b p @ map (\<lambda>l. \<lparr>type = ty, line = l, timestamp = now\<rparr>) (parseLines data))
      else stored b p @ map (\<lambda>l. \<lparr>type = ty, line = l, timestamp = now\<rparr>) (parseLines data))"
  by (auto simp: stored_def append_def getOrCreateBuffer_def Let_def enforceBufferLimits_def
      split: option.splits)

text \<open>
  Claim C3, as amended. Every chunk is a sequence of lines, each ended by a line feed
  or by a carriage return and a line feed, followed by a trailing fragment with no line
  feed. Whatever the chunk, \<open>parseLines\<close> returns the texts of its lines and the
  trailing fragment, in order, without the empty ones; every one of them, the trailing
  fragment included when it is not empty, becomes exactly one entry tagged with the
  stream of the call and the clock reading; these entries are pushed behind the old
  content of the buffer of the id, to which the limit is then applied, and the buffers
  of the other ids are left alone. The fragment is an entry of its own: the buffer
  store holds entries only, so it is not joined to the text of the next call.
\<close>

theorem append_chunk_entries:
  "(\<exists>ls f. data = terminated ls @ f \<and> (\<forall>x \<in> set ls. line_ok x) \<and> LF \<notin> set f)
   \<and> (data = terminated ls @ f \<and> (\<forall>x \<in> set ls. line_ok x) \<and> LF \<notin> set f \<longrightarrow>
        parseLines data = filter (\<lambda>l. l \<noteq> []) (map fst ls @ [f]))
   \<and> stored (appendStdout b processId data now) processId =
       (if parseLines data = [] then stored b processId
        else if int (length (stored b processId) + length (parseLines data)) > maxLines b
        then slice (- maxLines b)
               (stored b processId @
                  map (\<lambda>l. \<lparr>type = stdout, line = l, timestamp = now\<rparr>) (parseLines data))
        else stored b processId @
               map (\<lambda>l. \<lparr>type = stdout, line = l, timestamp = now\<rparr>) (parseLines data))
   \<and> stored (appendStderr b processId data now) processId =
       (if parseLines data = [] then stored b processId
        else if int (length (stored b processId) + length (parseLines data)) > maxLines b
        then slice (- maxLines b)
               (stored b processId @
                  map (\<lambda>l. \<lparr>type = stderr, line = l, timestamp = now\<rparr>) (parseLines data))
        else stored b processId @
               map (\<lambda>l. \<lparr>type = stderr, line = l, timestamp = now\<rparr>) (parseLines data))
   \<and> (q \<noteq> processId \<longrightarrow>
        stored (appendStdout b processId data now) q = stored b q
        \<and> stored (appendStderr b processId data now) q = stored b q)"
proof -
  have d: "\<exists>ls f. data = terminated ls @ f \<and> (\<forall>x \<in> set ls. line_ok x) \<and> LF \<notin> set f"
    by (rule chunk_decomposition)
  have p: "data = terminated ls @ f \<and> (\<forall>x \<in> set ls. line_ok x) \<and> LF \<notin> set f \<longrightarrow>
        parseLines data = filter (\<lambda>l. l \<noteq> []) (map fst ls @ [f])"
    using parseLines_terminated [of ls f] by blast
  have o: "q \<noteq> processId \<longrightarrow>
        stored (appendStdout b processId data now) q = stored b q
        \<and> stored (appendStderr b processId data now) q = stored b q"
    by (simp add: appendStdout_def appendStderr_def stored_append_other)
  show ?thesis
    using d p o stored_append_general [of stdout b processId data now]
      stored_append_general [of stderr b processId data now]
    by (simp only: appendStdout_def appendStderr_def)
qed

theorem append_chunk_entries_witness:
  "mixed_chunk = terminated [([CHR ''a'', CR, CHR ''b''], True), ([], False)] @ [CHR ''c'', CR]
   \<and> parseLines mixed_chunk = [[CHR ''a'', CR, CHR ''b''], [CHR ''c'', CR]]
   \<and> stored (appendStderr (newProcessLogBuffer config2) ''p'' mixed_chunk 5) ''p'' =
       [\<lparr>type = stderr, line = [CHR ''a'', CR, CHR ''b''], timestamp = 5\<rparr>,
        \<lparr>type = stderr, line = [CHR ''c'', CR], timestamp = 5\<rparr>]
   \<and> stored (appendStderr (newProcessLogBuffer config2) ''p'' mixed_chunk 5) ''q'' = []"
proof -
  let ?b = "newProcessLogBuffer config2"
  let ?ls = "[([CHR ''a'', CR, CHR ''b''], True), ([], False)]"
  let ?f = "[CHR ''c'', CR]"
  have h: "mixed_chunk = terminated ?ls @ ?f \<and> (\<forall>x \<in> set ?ls. line_ok x) \<and> LF \<notin> set ?f"
    by (simp add: mixed_chunk_def line_ok_def)
  note inst = append_chunk_entries
                [where data = mixed_chunk and ls = ?ls and f = ?f and b = ?b
                   and processId = "''p''" and now = 5 and q = "''q''"]
  have p: "parseLines mixed_chunk = [[CHR ''a'', CR, CHR ''b''], [CHR ''c'', CR]]"
    using inst h by simp
  have old: "stored ?b ''p'' = []" "stored ?b ''q'' = []" "maxLines ?b = 2"
    by (simp_all add: newProcessLogBuffer_def stored_def getMaxLogLinesPerProcesses_def
        config2_def)
  show ?thesis
    using inst h unfolding p old by simp
qed

text \<open>
  The chunk \<open>a\<close>, line feed, \<open>b\<close> has the incomplete trailing fragment \<open>b\<close>; the
  fragment is buffered as the second entry.
\<close>

theorem trailing_fragment_counterexample:
  "parseLines two_piece_chunk = [''a'', ''b'']
   \<and> map line (stored (appendStdout (newProcessLogBuffer config2) ''p'' two_piece_chunk 1) ''p'')
       = [''a'', ''b'']"
  by (simp add: two_piece_chunk_def appendStdout_def append_def getOrCreateBuffer_def
      newProcessLogBuffer_def getMaxLogLinesPerProcesses_def config2_def parseLines_def
      enforceBufferLimits_def stored_def Let_def)

text \<open>
  The scenario of the test suite: with a ceiling of 1000, after the 1500 appends of
  \<^verbatim>\<open>Line 1\<close> to \<^verbatim>\<open>Line 1500\<close> a read returns the 1000 entries \<^verbatim>\<open>Line 501\<close> to
  \<^verbatim>\<open>Line 1500\<close>.
\<close>

lemma show_nat_plain: "LF \<notin> set (show_nat n)"
proof (induction n rule: show_nat.induct)
  case (1 n)
  have digit: "char_of (48 + d) \<noteq> LF" if "d < 10" for d :: nat
  proof
    assume "char_of (48 + d) = LF"
    then have "of_char (char_of (48 + d) :: char) = (of_char LF :: nat)" by simp
    then show False using that by (simp add: of_char_of)
  qed
  show ?case
  proof (cases "n < 10")
    case True
    then show ?thesis using digit [of n] by (simp add: show_nat.simps [of n])
  next
    case False
    then show ?thesis
      using 1 digit [of "n mod 10"] by (simp add: show_nat.simps [of n])
  qed
qed

lemma parseLines_numbered: "parseLines (''Line '' @ show_nat i) = [''Line '' @ show_nat i]"
proof -
  have "LF \<notin> set (''Line '' @ show_nat i)" using show_nat_plain [of i] by simp
  then have "split_newlines [] (''Line '' @ show_nat i) = [''Line '' @ show_nat i]"
    using split_newlines_plain [of "''Line '' @ show_nat i" "[]"] by simp
  then show ?thesis by (simp add: parseLines_def)
qed

lemma entries_of_numbered:
  "entries_of ''p'' (map numbered_line ns) = map numbered_entry ns"
  by (induction ns)
     (simp_all add: numbered_line_def numbered_entry_def parseLines_numbered [simplified])

lemma thousand_of_fifteen_hundred:
  "logs (getLatestLogs
           (run_appends (newProcessLogBuffer config1000) (map numbered_line [1..<1501]))
           ''p'' None now)
     = map numbered_entry [501..<1501]"
proof -
  let ?b = "newProcessLogBuffer config1000"
  have m: "maxLines ?b = 1000"
    by (simp add: newProcessLogBuffer_def getMaxLogLinesPerProcesses_def config1000_def)
  have old: "stored ?b ''p'' = []" by (simp add: newProcessLogBuffer_def stored_def)
  have "stored (run_appends ?b (map numbered_line [1..<1501])) ''p'' =
          drop (length (stored ?b ''p'' @ entries_of ''p'' (map numbered_line [1..<1501]))
                  - nat (maxLines ?b))
            (stored ?b ''p'' @ entries_of ''p'' (map numbered_line [1..<1501]))"
    by (rule stored_run_appends) (simp_all add: m old)
  also have "\<dots> = drop 500 (map numbered_entry [1..<1501])"
    by (simp add: m old entries_of_numbered)
  also have "\<dots> = map numbered_entry [501..<1501]"
    by (simp add: drop_map)
  finally show ?thesis by (simp add: stored_read)
qed

section \<open>The supervisor: basic facts\<close>

lemma call_fields [simp]:
  "processes (call c s) = processes s"
  "logBuffer (call c s) = logBuffer s"
  "pending (call c s) = pending s"
  "ctl_calls (call c s) = ctl_calls s @ [c]"
  by (simp_all add: call_def)

lemma suspend_fields [simp]:
  "processes (suspend i s) = processes s"
  "logBuffer (suspend i s) = logBuffer s"
  "ctl_calls (suspend i s) = ctl_calls s"
  "pending (suspend i s) = pending s @ [i]"
  by (simp_all add: suspend_def)

lemma resume_fields [simp]:
  "processes (resume i s) = processes s"
  "logBuffer (resume i s) = logBuffer s"
  "ctl_calls (resume i s) = ctl_calls s"
  "pending (resume i s) = remove1 i (pending s)"
  by (simp_all add: resume_def)

lemma updateProcessStatus_fields [simp]:
  "logBuffer (updateProcessStatus s i st code now) = logBuffer s"
  "pending (updateProcessStatus s i st code now) = pending s"
  "ctl_calls (updateProcessStatus s i st code now) = ctl_calls s"
  by (simp_all add: updateProcessStatus_def split: option.splits)

lemma updateProcessStatus_absent:
  "map_of (processes s) i = None \<Longrightarrow> updateProcessStatus s i st code now = s"
  by (simp add: updateProcessStatus_def)

lemma updateProcessStatus_present:
  "map_of (processes s) i = Some r \<Longrightarrow>
   map_of (processes (updateProcessStatus s i st code now)) =
     (map_of (processes s))
       (i \<mapsto> r\<lparr>managedProcess := (managedProcess r)
                \<lparr>status := st, exitCode := code,
                 endTime := (if st \<noteq> running then Some now else None)\<rparr>\<rparr>)"
  by (simp add: updateProcessStatus_def update_conv')

lemma updateProcessStatus_keys [simp]:
  "map fst (processes (updateProcessStatus s i st code now)) = map fst (processes s)"
proof (cases "map_of (processes s) i")
  case None
  then show ?thesis by (simp add: updateProcessStatus_def)
next
  case (Some r)
  then have "(i, r) \<in> set (processes s)" by (rule map_of_SomeD)
  then have "i \<in> fst ` set (processes s)" by force
  then show ?thesis using Some by (simp add: updateProcessStatus_def update_keys)
qed

lemma updateProcessStatus_other:
  "q \<noteq> i \<Longrightarrow>
   map_of (processes (updateProcessStatus s i st code now)) q = map_of (processes s) q"
  by (simp add: updateProcessStatus_def update_conv' split: option.splits)

lemma deliver_fields [simp]:
  "pending (deliver s ev) = pending s"
  "ctl_calls (deliver s ev) = ctl_calls s"
  "map fst (processes (deliver s ev)) = map fst (processes s)"
  by (induction s ev rule: deliver.induct;
      simp add: onStdout_def onStderr_def onExit_def onError_def Let_def)+

lemma deliver_all_fields [simp]:
  "pending (foldl deliver s evs) = pending s"
  "ctl_calls (foldl deliver s evs) = ctl_calls s"
  "map fst (processes (foldl deliver s evs)) = map fst (processes s)"
  by (induction evs arbitrary: s; simp)+

lemma deliver_call: "deliver (call c s) ev = call c (deliver s ev)"
  by (induction s ev rule: deliver.induct)
     (simp_all add: onStdout_def onStderr_def onExit_def onError_def Let_def call_def
       updateProcessStatus_def split: option.splits)

lemma deliver_all_call: "foldl deliver (call c s) evs = call c (foldl deliver s evs)"
  by (induction evs arbitrary: s) (simp_all add: deliver_call)




lemma keys_imp_dom:
  "map fst al = map fst al' \<Longrightarrow> (map_of al k = None) = (map_of al' k = None)"
  by (metis list.set_map map_of_eq_None_iff)

text \<open>The explicit form of the concrete states.\<close>

lemma init2_eq:
  "init2 = \<lparr>processes = [], logBuffer = \<lparr>buffers = Map.empty, maxLines = 2\<rparr>,
            ctl_calls = [], pending = []\<rparr>"
  by (simp add: init2_def newBgProcessManager_def newProcessLogBuffer_def
      getMaxLogLinesPerProcesses_def config2_def)

lemma start_a:
  "startProcess init2 echo env_a =
     (Inr \<lparr>proc_id = ''a'', pid = 1000, command = ''echo'', args = [''hello''], cwd = ''/tmp'',
           status = running, startTime = 1, endTime = None, exitCode = None\<rparr>,
      \<lparr>processes =
         [(''a'', \<lparr>managedProcess =
                    \<lparr>proc_id = ''a'', pid = 1000, command = ''echo'', args = [''hello''],
                     cwd = ''/tmp'', status = running, startTime = 1, endTime = None,
                     exitCode = None\<rparr>,
                  spawnResult = \<lparr>sr_pid = 1000\<rparr>\<rparr>)],
       logBuffer = \<lparr>buffers = Map.empty, maxLines = 2\<rparr>,
       ctl_calls = [Spawn \<lparr>cfg_command = ''echo'', cfg_args = Some [''hello''],
                           cfg_cwd = Some ''/tmp'', cfg_env = None\<rparr>],
       pending = []\<rparr>)"
  by (simp add: init2_eq startProcess_def echo_def env_a_def validateDirectory_def fs_tmp_def
      generateProcessId_def call_def Let_def)

lemma s_running_eq:
  "s_running =
      \<lparr>processes =
         [(''a'', \<lparr>managedProcess =
                    \<lparr>proc_id = ''a'', pid = 1000, command = ''echo'', args = [''hello''],
                     cwd = ''/tmp'', status = running, startTime = 1, endTime = None,
                     exitCode = None\<rparr>,
                  spawnResult = \<lparr>sr_pid = 1000\<rparr>\<rparr>)],
       logBuffer = \<lparr>buffers = Map.empty, maxLines = 2\<rparr>,
       ctl_calls = [Spawn \<lparr>cfg_command = ''echo'', cfg_args = Some [''hello''],
                           cfg_cwd = Some ''/tmp'', cfg_env = None\<rparr>],
       pending = []\<rparr>"
  by (simp add: s_running_def start_a)

lemma s_stopped_eq:
  "s_stopped =
      \<lparr>processes =
         [(''a'', \<lparr>managedProcess =
                    \<lparr>proc_id = ''a'', pid = 1000, command = ''echo'', args = [''hello''],
                     cwd = ''/tmp'', status = stopped, startTime = 1, endTime = Some 5,
                     exitCode = Some 0\<rparr>,
                  spawnResult = \<lparr>sr_pid = 1000\<rparr>\<rparr>)],
       logBuffer = \<lparr>buffers = Map.empty, maxLines = 2\<rparr>,
       ctl_calls = [Spawn \<lparr>cfg_command = ''echo'', cfg_args = Some [''hello''],
                           cfg_cwd = Some ''/tmp'', cfg_env = None\<rparr>],
       pending = []\<rparr>"
  by (simp add: s_stopped_def s_running_eq onExit_def updateProcessStatus_def)

lemma reachable_init2: "reachable init2"
  unfolding init2_def by (rule r_init)

lemma reachable_s_running: "reachable s_running"
  unfolding s_running_def
  by (rule r_start [OF reachable_init2])

lemma reachable_s_stopped: "reachable s_stopped"
  unfolding s_stopped_def by (rule r_event [OF reachable_s_running])

lemma reachable_s_error: "reachable s_error"
  unfolding s_error_def by (rule r_event [OF reachable_s_running])

section \<open>Lifecycle events\<close>

text \<open>
  Claim C10. An exit or error event for a process id that has no record leaves the
  record map as it is: the status update returns the supervisor unchanged, the exit
  callback changes nothing at all, and the error callback changes the log buffer only
  (it appends its message to the buffer of the id). Both callbacks are total: no error
  is raised.
\<close>

theorem event_without_record_is_noop:
  assumes "map_of (processes s) processId = None"
  shows "updateProcessStatus s processId st code now = s
         \<and> deliver s (Event processId (OnExit code) now) = s
         \<and> deliver s (Event processId (OnError msg) now) =
             s\<lparr>logBuffer :=
                 appendStderr (logBuffer s) processId (''Process error: '' @ msg @ [LF]) now\<rparr>
         \<and> processes (deliver s (Event processId (OnExit code) now)) = processes s
         \<and> processes (deliver s (Event processId (OnError msg) now)) = processes s"
  using assms by (simp add: onExit_def onError_def updateProcessStatus_def Let_def)

theorem event_without_record_is_noop_witness:
  "map_of (processes s_running) ''gone'' = None
   \<and> deliver s_running (Event ''gone'' (OnExit (Some 1)) 7) = s_running
   \<and> processes (deliver s_running (Event ''gone'' (OnError ''late'') 7)) = processes s_running"
proof -
  have h: "map_of (processes s_running) ''gone'' = None" by (simp add: s_running_eq)
  show ?thesis
    using h event_without_record_is_noop [OF h, of error "Some 1" 7 "''late''"] by simp
qed

text \<open>
  Claim C2, as amended. For a record of the map, the exit callback sets the status to
  \<open>stopped\<close> (exit code \<open>0\<close>) or \<open>error\<close> (any other code, or none), the error callback
  sets it to \<open>error\<close>: never to \<open>running\<close>, whatever the status was. Both overwrite the
  exit code with that of the event (none for an error event) and the end time with the
  time of the event, and leave the other fields and the other records as they are. A
  notification for a record that is already terminal is applied in the same way.
\<close>

theorem lifecycle_event_overwrites_record:
  assumes "map_of (processes s) processId = Some r"
  shows "map_of (processes (deliver s (Event processId (OnExit code) now))) processId =
           Some (r\<lparr>managedProcess := (managedProcess r)
                  \<lparr>status := (if code = Some 0 then stopped else error),
                   exitCode := code, endTime := Some now\<rparr>\<rparr>)
         \<and> map_of (processes (deliver s (Event processId (OnError msg) now))) processId =
           Some (r\<lparr>managedProcess := (managedProcess r)
                  \<lparr>status := error, exitCode := None, endTime := Some now\<rparr>\<rparr>)
         \<and> (q \<noteq> processId \<longrightarrow>
              map_of (processes (deliver s (Event processId (OnExit code) now))) q
                = map_of (processes s) q
              \<and> map_of (processes (deliver s (Event processId (OnError msg) now))) q
                = map_of (processes s) q)"
proof -
  let ?s1 = "s\<lparr>logBuffer :=
               appendStderr (logBuffer s) processId (''Process error: '' @ msg @ [LF]) now\<rparr>"
  have r1: "map_of (processes ?s1) processId = Some r" using assms by simp
  have a: "map_of (processes (deliver s (Event processId (OnExit code) now))) processId =
           Some (r\<lparr>managedProcess := (managedProcess r)
                  \<lparr>status := (if code = Some 0 then stopped else error),
                   exitCode := code, endTime := Some now\<rparr>\<rparr>)"
    using assms by (simp add: onExit_def updateProcessStatus_present)
  have b: "map_of (processes (deliver s (Event processId (OnError msg) now))) processId =
           Some (r\<lparr>managedProcess := (managedProcess r)
                  \<lparr>status := error, exitCode := None, endTime := Some now\<rparr>\<rparr>)"
    using r1 by (simp add: onError_def Let_def updateProcessStatus_present)
  have c: "q \<noteq> processId \<longrightarrow>
              map_of (processes (deliver s (Event processId (OnExit code) now))) q
                = map_of (processes s) q
              \<and> map_of (processes (deliver s (Event processId (OnError msg) now))) q
                = map_of (processes s) q"
    by (simp add: onExit_def onError_def Let_def updateProcessStatus_other)
  show ?thesis using a b c by blast
qed

theorem lifecycle_event_overwrites_record_witness:
  "map_of (processes (deliver s_stopped (Event ''a'' (OnExit (Some 3)) 8))) ''a'' =
     Some \<lparr>managedProcess =
             \<lparr>proc_id = ''a'', pid = 1000, command = ''echo'', args = [''hello''],
              cwd = ''/tmp'', status = error, startTime = 1, endTime = Some 8,
              exitCode = Some 3\<rparr>,
           spawnResult = \<lparr>sr_pid = 1000\<rparr>\<rparr>"
proof -
  have h: "map_of (processes s_stopped) ''a'' =
     Some \<lparr>managedProcess =
             \<lparr>proc_id = ''a'', pid = 1000, command = ''echo'', args = [''hello''],
              cwd = ''/tmp'', status = stopped, startTime = 1, endTime = Some 5,
              exitCode = Some 0\<rparr>,
           spawnResult = \<lparr>sr_pid = 1000\<rparr>\<rparr>"
    by (simp add: s_stopped_eq)
  show ?thesis
    using lifecycle_event_overwrites_record [OF h, of "Some 3" 8] by simp
qed

text \<open>
  The record of \<open>a\<close> is terminal (\<open>stopped\<close>, exit code \<open>0\<close>, ended at \<open>5\<close>). A second
  notification, an error event at \<open>9\<close>, is not a no-op: the record becomes \<open>error\<close>, loses
  its exit code and gets the end time \<open>9\<close>.
\<close>

theorem second_notification_counterexample:
  "getProcessInfo s_stopped ''a'' =
     Some \<lparr>proc_id = ''a'', pid = 1000, command = ''echo'', args = [''hello''],
           cwd = ''/tmp'', status = stopped, startTime = 1, endTime = Some 5,
           exitCode = Some 0\<rparr>
   \<and> getProcessInfo (deliver s_stopped (Event ''a'' (OnError ''boom'') 9)) ''a'' =
     Some \<lparr>proc_id = ''a'', pid = 1000, command = ''echo'', args = [''hello''],
           cwd = ''/tmp'', status = error, startTime = 1, endTime = Some 9,
           exitCode = None\<rparr>"
  by (simp add: s_stopped_eq getProcessInfo_def onError_def updateProcessStatus_def Let_def)

section \<open>Stop, restart and start: results and failures\<close>

text \<open>
  Claim C8. \<open>stopProcess\<close> and \<open>restartProcess\<close> on an id with no record fail with
  \<open>PROCESS_NOT_FOUND\<close> and change nothing; \<open>stopProcess\<close> on a record that is not
  running returns success and the supervisor as it was: no call is made on the handle
  layer (no signal), no record is modified.
\<close>

theorem stop_restart_unknown_stop_terminal:
  "(map_of (processes s) processId = None \<longrightarrow>
      stopProcess s processId senv =
        (Inl \<lparr>err_type = PROCESS_NOT_FOUND, details = ''Process not found: '' @ processId,
              err_processId = None\<rparr>, s)
      \<and> restartProcess s processId senv env =
        (Inl (ProcessErr \<lparr>err_type = PROCESS_NOT_FOUND,
                           details = ''Process not found: '' @ processId,
                           err_processId = None\<rparr>), s))
   \<and> (map_of (processes s) processId = Some r \<and> status (managedProcess r) \<noteq> running \<longrightarrow>
        stopProcess s processId senv = (Inr (), s))"
  by (simp add: stopProcess_def stopProcess_sync_def restartProcess_def)

theorem stop_restart_unknown_stop_terminal_witness:
  "stopProcess s_stopped ''zz'' senv_clean =
     (Inl \<lparr>err_type = PROCESS_NOT_FOUND, details = ''Process not found: zz'',
           err_processId = None\<rparr>, s_stopped)
   \<and> restartProcess s_stopped ''zz'' senv_clean env_b =
     (Inl (ProcessErr \<lparr>err_type = PROCESS_NOT_FOUND, details = ''Process not found: zz'',
                        err_processId = None\<rparr>), s_stopped)
   \<and> stopProcess s_stopped ''a'' senv_clean = (Inr (), s_stopped)"
proof -
  have h1: "map_of (processes s_stopped) ''zz'' = None" by (simp add: s_stopped_eq)
  have h2: "map_of (processes s_stopped) ''a'' =
     Some \<lparr>managedProcess =
             \<lparr>proc_id = ''a'', pid = 1000, command = ''echo'', args = [''hello''],
              cwd = ''/tmp'', status = stopped, startTime = 1, endTime = Some 5,
              exitCode = Some 0\<rparr>,
           spawnResult = \<lparr>sr_pid = 1000\<rparr>\<rparr>"
    by (simp add: s_stopped_eq)
  show ?thesis
    using stop_restart_unknown_stop_terminal [of s_stopped "''zz''" senv_clean env_b]
      stop_restart_unknown_stop_terminal [of s_stopped "''a''" senv_clean env_b, where r =
        "\<lparr>managedProcess =
             \<lparr>proc_id = ''a'', pid = 1000, command = ''echo'', args = [''hello''],
              cwd = ''/tmp'', status = stopped, startTime = 1, endTime = Some 5,
              exitCode = Some 0\<rparr>,
           spawnResult = \<lparr>sr_pid = 1000\<rparr>\<rparr>"]
      h1 h2
    by simp
qed





text \<open>
  The one other way in which \<open>startProcess\<close> fails: \<^verbatim>\<open>process.cwd()\<close> throws before
  anything else happens, and the error is the one it threw.
\<close>

lemma start_cwd_throws:
  "startProcess s_running echo env_nocwd = (Inl (JsError ''ENOENT: uv_cwd''), s_running)"
  by (simp add: startProcess_def echo_def env_nocwd_def Let_def)

section \<open>Stop of a running process\<close>

lemma present_after_events:
  "map_of (processes s) i \<noteq> None \<Longrightarrow> map_of (processes (foldl deliver s evs)) i \<noteq> None"
  using keys_imp_dom [of "processes (foldl deliver s evs)" "processes s" i] by simp

lemma termination_failed_result:
  "fst (termination_failed s i m t) =
     Inl \<lparr>err_type = TERMINATION_FAILED, details = ''Failed to stop process: '' @ m,
          err_processId = Some i\<rparr>"
  "ctl_calls (snd (termination_failed s i m t)) = ctl_calls s"
  "pending (snd (termination_failed s i m t)) = pending s"
  "logBuffer (snd (termination_failed s i m t)) = logBuffer s"
  "map fst (processes (snd (termination_failed s i m t))) = map fst (processes s)"
  by (simp_all add: termination_failed_def)

lemma termination_failed_marks_error:
  assumes "map_of (processes s) i \<noteq> None"
  shows "\<exists>r'. map_of (processes (snd (termination_failed s i m t))) i = Some r'
              \<and> status (managedProcess r') = error"
proof -
  from assms obtain r where "map_of (processes s) i = Some r" by blast
  then show ?thesis
    by (simp add: termination_failed_def updateProcessStatus_present)
qed

lemma stop_sync_running:
  assumes "map_of (processes s) i = Some r" and "status (managedProcess r) = running"
  shows "stopProcess_sync s i senv =
     (let p = pid (managedProcess r); s1 = call (Kill p False) s
      in case term_outcome senv of
           Threw m \<Rightarrow>
             (Settled (fst (termination_failed s1 i m (catch_clock senv))),
              snd (termination_failed s1 i m (catch_clock senv)))
         | Returned killed \<Rightarrow>
             if killed then (Awaiting, suspend i (call (WaitForExit p None) s1))
             else (case force_outcome senv of
                     Threw m \<Rightarrow>
                       (Settled (fst (termination_failed (call (Kill p True) s1) i m (catch_clock senv))),
                        snd (termination_failed (call (Kill p True) s1) i m (catch_clock senv)))
                   | Returned x \<Rightarrow>
                       (Awaiting, suspend i (call (WaitForExit p None) (call (Kill p True) s1)))))"
  using assms
  by (simp add: stopProcess_sync_def Let_def split_beta split: outcome.splits)

text \<open>
  Claim C5, as amended. For a record that is running, \<open>stopProcess\<close> calls the handle
  layer as the specification's escalation says: the non-forceful signal first; the
  forceful one only if the first returned that it could not be delivered; then, whichever
  signal was sent, \<open>waitForExit\<close> with no timeout argument, that is with the handle
  layer's default of 5000 ms (no configured timeout is passed). In the handle layer,
  \<open>kill\<close> without force sends SIGTERM and with force SIGKILL to a known child, and
  answers \<open>False\<close> without a signal for an unknown pid. If none of these calls
  throws, the operation succeeds; if one throws with message \<open>m\<close>, the operation fails
  with \<open>TERMINATION_FAILED\<close>, the message and the process id, and the record's status
  is \<open>error\<close>.
\<close>

theorem stop_running_escalation:
  assumes "map_of (processes s) processId = Some r"
    and "status (managedProcess r) = running"
  shows "ctl_calls (snd (stopProcess s processId senv)) =
           ctl_calls s @ spec_stop_calls (pid (managedProcess r)) senv
         \<and> set (wait_timeouts (spec_stop_calls (pid (managedProcess r)) senv)) \<subseteq> {5000}
         \<and> kill children p False =
               (case children p of None \<Rightarrow> (False, None)
                | Some child \<Rightarrow> (child SIGTERM, Some SIGTERM))
         \<and> kill children p True =
               (case children p of None \<Rightarrow> (False, None)
                | Some child \<Rightarrow> (child SIGKILL, Some SIGKILL))
         \<and> (spec_stop_thrown senv = None \<longrightarrow> fst (stopProcess s processId senv) = Inr ())
         \<and> (spec_stop_thrown senv = Some m \<longrightarrow>
              fst (stopProcess s processId senv) =
                Inl \<lparr>err_type = TERMINATION_FAILED,
                     details = ''Failed to stop process: '' @ m,
                     err_processId = Some processId\<rparr>
              \<and> (\<exists>r'. map_of (processes (snd (stopProcess s processId senv))) processId = Some r'
                        \<and> status (managedProcess r') = error))"
proof -
  let ?p = "pid (managedProcess r)"
  have present: "map_of (processes s) processId \<noteq> None" using assms(1) by simp
  have marks: "\<exists>r'. map_of (processes (snd (termination_failed s' processId m' t))) processId
                       = Some r' \<and> status (managedProcess r') = error"
    if "map fst (processes s') = map fst (processes s)" for s' m' t
    using that present keys_imp_dom [of "processes s'" "processes s" processId]
    by (intro termination_failed_marks_error) simp
  have t: "set (wait_timeouts (spec_stop_calls ?p senv)) \<subseteq> {5000}
           \<and> kill children p False =
               (case children p of None \<Rightarrow> (False, None)
                | Some child \<Rightarrow> (child SIGTERM, Some SIGTERM))
           \<and> kill children p True =
               (case children p of None \<Rightarrow> (False, None)
                | Some child \<Rightarrow> (child SIGKILL, Some SIGKILL))"
    by (simp add: spec_stop_calls_def waitForExit_timeoutMs_def kill_def split: option.splits)
  show ?thesis
  proof (cases "term_outcome senv")
    case (Threw m1)
    then show ?thesis
      using t marks [of "call (Kill ?p False) s" m1 "catch_clock senv"]
      by (auto simp: stopProcess_def stop_sync_running [OF assms] Let_def
          termination_failed_result spec_stop_calls_def spec_stop_thrown_def)
  next
    case (Returned killed)
    show ?thesis
    proof (cases "killed \<or> (\<exists>x. force_outcome senv = Returned x)")
      case False
      then obtain m2 where f: "\<not> killed" "force_outcome senv = Threw m2"
        by (cases "force_outcome senv") auto
      then show ?thesis
        using t Returned marks [of "call (Kill ?p True) (call (Kill ?p False) s)" m2 "catch_clock senv"]
        by (auto simp: stopProcess_def stop_sync_running [OF assms] Let_def
            termination_failed_result spec_stop_calls_def spec_stop_thrown_def)
    next
      case True
      let ?s2 = "if killed
                 then suspend processId (call (WaitForExit ?p None) (call (Kill ?p False) s))
                 else suspend processId
                        (call (WaitForExit ?p None) (call (Kill ?p True) (call (Kill ?p False) s)))"
      have sync: "stopProcess_sync s processId senv = (Awaiting, ?s2)"
        using True Returned
        by (auto simp: stop_sync_running [OF assms] Let_def)
      have calls: "ctl_calls ?s2 = ctl_calls s @ spec_stop_calls ?p senv"
        using True Returned by (auto simp: spec_stop_calls_def)
      have thrown: "spec_stop_thrown senv =
                      (case wait_outcome senv of Threw m3 \<Rightarrow> Some m3 | Returned x \<Rightarrow> None)"
        using True Returned by (auto simp: spec_stop_thrown_def)
      have keys: "map fst (processes (resume processId (foldl deliver ?s2 (wait_events senv))))
                    = map fst (processes s)"
        by simp
      show ?thesis
      proof (cases "wait_outcome senv")
        case (Returned x)
        then show ?thesis
          using t calls thrown
          by (simp add: stopProcess_def sync stopProcess_resume_def)
      next
        case (Threw m3)
        then show ?thesis
          using t calls thrown
            marks [OF keys, of m3 "catch_clock senv"]
          by (auto simp: stopProcess_def sync stopProcess_resume_def termination_failed_result)
      qed
    qed
  qed
qed

theorem stop_running_escalation_witness:
  "ctl_calls (snd (stopProcess s_running ''a'' senv_gone)) =
     ctl_calls s_running @ [Kill 1000 False, Kill 1000 True, WaitForExit 1000 None]
   \<and> fst (stopProcess s_running ''a'' senv_gone) =
       Inl \<lparr>err_type = TERMINATION_FAILED,
            details = ''Failed to stop process: Process 1000 not found'',
            err_processId = Some ''a''\<rparr>
   \<and> ctl_calls (snd (stopProcess s_running ''a'' senv_clean)) =
       ctl_calls s_running @ [Kill 1000 False, WaitForExit 1000 None]
   \<and> fst (stopProcess s_running ''a'' senv_clean) = Inr ()"
proof -
  let ?r = "\<lparr>managedProcess =
               \<lparr>proc_id = ''a'', pid = 1000, command = ''echo'', args = [''hello''],
                cwd = ''/tmp'', status = running, startTime = 1, endTime = None,
                exitCode = None\<rparr>,
             spawnResult = \<lparr>sr_pid = 1000\<rparr>\<rparr>"
  have h1: "map_of (processes s_running) ''a'' = Some ?r" by (simp add: s_running_eq)
  have h2: "status (managedProcess ?r) = running" by simp
  have g: "spec_stop_calls 1000 senv_gone = [Kill 1000 False, Kill 1000 True, WaitForExit 1000 None]"
    "spec_stop_thrown senv_gone = Some ''Process 1000 not found''"
    by (simp_all add: spec_stop_calls_def spec_stop_thrown_def senv_gone_def)
  have c: "spec_stop_calls 1000 senv_clean = [Kill 1000 False, WaitForExit 1000 None]"
    "spec_stop_thrown senv_clean = None"
    by (simp_all add: spec_stop_calls_def spec_stop_thrown_def senv_clean_def)
  show ?thesis
    using stop_running_escalation
            [OF h1 h2, where senv = senv_gone and m = "''Process 1000 not found''"]
      stop_running_escalation [OF h1 h2, where senv = senv_clean and m = "''x''"] g c
    by simp
qed

text \<open>
  The supervisor built on the configuration \<open>config2\<close>, whose termination timeout is
  100 ms, waits with a timeout of 5000 ms when it stops the process \<open>a\<close>.
\<close>

theorem configured_timeout_counterexample:
  "getProcessTerminationTimeoutMs config2 = 100
   \<and> s_running = snd (startProcess (newBgProcessManager (newProcessLogBuffer config2)) echo env_a)
   \<and> wait_timeouts (ctl_calls (snd (stopProcess s_running ''a'' senv_clean))) = [5000]"
  by (simp add: s_running_def init2_def [symmetric])
     (simp add: getProcessTerminationTimeoutMs_def config2_def s_running_eq stopProcess_def
      stopProcess_sync_def stopProcess_resume_def senv_clean_def call_def Let_def
      onExit_def updateProcessStatus_def waitForExit_timeoutMs_def s_running_def [symmetric])

section \<open>Invariants of the supervisor\<close>

lemma consistent_call [simp]: "consistent (call c s) = consistent s"
  by (simp add: consistent_def)

lemma consistent_suspend [simp]: "consistent (suspend i s) = consistent s"
  by (simp add: consistent_def)

lemma consistent_resume [simp]: "consistent (resume i s) = consistent s"
  by (simp add: consistent_def)

lemma consistent_logBuffer [simp]: "consistent (s\<lparr>logBuffer := b\<rparr>) = consistent s"
  by (simp add: consistent_def)

lemma set_update_cases:
  "x \<in> set (AList.update k v al) \<Longrightarrow> x = (k, v) \<or> x \<in> set al"
  by (induction al) (auto split: if_splits)

lemma set_delete_subset: "set (AList.delete k al) \<subseteq> set al"
  by (auto simp: AList.delete_eq)

lemma consistent_updateProcessStatus:
  assumes "consistent s" and "st \<noteq> running" and "st = stopped \<longrightarrow> code = Some 0"
  shows "consistent (updateProcessStatus s i st code now)"
proof (cases "map_of (processes s) i")
  case None
  then show ?thesis using assms(1) by (simp add: updateProcessStatus_absent)
next
  case (Some r)
  let ?r = "r\<lparr>managedProcess := (managedProcess r)
              \<lparr>status := st, exitCode := code,
               endTime := (if st \<noteq> running then Some now else None)\<rparr>\<rparr>"
  have mem: "(i, r) \<in> set (processes s)" using Some by (rule map_of_SomeD)
  have eq: "processes (updateProcessStatus s i st code now) = AList.update i ?r (processes s)"
    using Some by (simp add: updateProcessStatus_def)
  have new: "proc_id (managedProcess ?r) = i \<and> record_ok (managedProcess ?r)"
    using assms mem by (cases st) (auto simp: consistent_def record_ok_def)
  have keys: "map fst (processes (updateProcessStatus s i st code now)) = map fst (processes s)"
    by simp
  have "\<forall>x \<in> set (AList.update i ?r (processes s)).
          proc_id (managedProcess (snd x)) = fst x \<and> record_ok (managedProcess (snd x))"
  proof
    fix x assume "x \<in> set (AList.update i ?r (processes s))"
    then have "x = (i, ?r) \<or> x \<in> set (processes s)" by (rule set_update_cases)
    then show "proc_id (managedProcess (snd x)) = fst x \<and> record_ok (managedProcess (snd x))"
      using new assms(1) by (auto simp: consistent_def)
  qed
  moreover have "fst ` set (processes (updateProcessStatus s i st code now)) = fst ` set (processes s)"
    using keys by (metis list.set_map)
  ultimately show ?thesis
    using assms(1) keys unfolding consistent_def eq [symmetric] by simp
qed

lemma consistent_deliver: "consistent s \<Longrightarrow> consistent (deliver s ev)"
  by (induction s ev rule: deliver.induct)
     (simp_all add: onStdout_def onStderr_def onExit_def onError_def Let_def
       consistent_updateProcessStatus)

lemma consistent_deliver_all: "consistent s \<Longrightarrow> consistent (foldl deliver s evs)"
  by (induction evs arbitrary: s) (simp_all add: consistent_deliver)

lemma consistent_termination_failed:
  "consistent s \<Longrightarrow> consistent (snd (termination_failed s i m t))"
  by (simp add: termination_failed_def consistent_updateProcessStatus)

lemma stop_sync_fields [simp]:
  "pending (snd (stopProcess_sync s i senv)) =
     pending s @ (if fst (stopProcess_sync s i senv) = Awaiting then [i] else [])"
  "logBuffer (snd (stopProcess_sync s i senv)) = logBuffer s"
  "map fst (processes (snd (stopProcess_sync s i senv))) = map fst (processes s)"
  by (simp_all add: stopProcess_sync_def Let_def split_beta termination_failed_result
      split: option.splits outcome.splits)

lemma consistent_stop_sync:
  "consistent s \<Longrightarrow> consistent (snd (stopProcess_sync s i senv))"
  by (simp add: stopProcess_sync_def Let_def split_beta consistent_termination_failed
      split: option.splits outcome.splits)

lemma stop_resume_fields [simp]:
  "pending (snd (stopProcess_resume s i senv)) = remove1 i (pending s)"
  "logBuffer (snd (stopProcess_resume s i senv)) = logBuffer s"
  "ctl_calls (snd (stopProcess_resume s i senv)) = ctl_calls s"
  "map fst (processes (snd (stopProcess_resume s i senv))) = map fst (processes s)"
  by (simp_all add: stopProcess_resume_def termination_failed_result split: outcome.splits)

lemma consistent_stop_resume:
  "consistent s \<Longrightarrow> consistent (snd (stopProcess_resume s i senv))"
  by (simp add: stopProcess_resume_def consistent_termination_failed split: outcome.splits)

lemma stopProcess_snd:
  "snd (stopProcess s i senv) =
     (case fst (stopProcess_sync s i senv) of
        Settled r \<Rightarrow> snd (stopProcess_sync s i senv)
      | Awaiting \<Rightarrow>
          snd (stopProcess_resume
                 (foldl deliver (snd (stopProcess_sync s i senv)) (wait_events senv)) i senv))"
  by (simp add: stopProcess_def split: prod.splits stop_phase.splits)

lemma stop_fields [simp]:
  "pending s = [] \<Longrightarrow> pending (snd (stopProcess s i senv)) = []"
  "map fst (processes (snd (stopProcess s i senv))) = map fst (processes s)"
  by (simp_all add: stopProcess_snd split: stop_phase.splits)

lemma consistent_stop: "consistent s \<Longrightarrow> consistent (snd (stopProcess s i senv))"
  by (simp add: stopProcess_snd consistent_stop_sync consistent_stop_resume
      consistent_deliver_all split: stop_phase.splits)

lemma start_fields [simp]:
  "pending (snd (startProcess s config env)) = pending s"
  by (simp add: startProcess_def Let_def split: outcome.splits)



lemma consistent_insert:
  assumes "consistent s" and "proc_id mp = u" and "record_ok mp"
  shows "consistent (s\<lparr>processes := AList.update u \<lparr>managedProcess = mp, spawnResult = sr\<rparr> (processes s)\<rparr>)"
proof -
  have "\<forall>x \<in> set (AList.update u \<lparr>managedProcess = mp, spawnResult = sr\<rparr> (processes s)).
          proc_id (managedProcess (snd x)) = fst x \<and> record_ok (managedProcess (snd x))"
  proof
    fix x assume "x \<in> set (AList.update u \<lparr>managedProcess = mp, spawnResult = sr\<rparr> (processes s))"
    then have "x = (u, \<lparr>managedProcess = mp, spawnResult = sr\<rparr>) \<or> x \<in> set (processes s)"
      by (rule set_update_cases)
    then show "proc_id (managedProcess (snd x)) = fst x \<and> record_ok (managedProcess (snd x))"
      using assms by (auto simp: consistent_def)
  qed
  then show ?thesis
    using assms(1) by (simp add: consistent_def distinct_update)
qed

text \<open>
  The three shapes of the state after \<open>startProcess\<close>: untouched (the directory was
  refused), the spawn call and the events delivered during it, or these and the new
  record.
\<close>

lemma start_shape:
  "snd (startProcess s config env) = s
   \<or> (\<exists>c. snd (startProcess s config env) = call c (foldl deliver s (spawn_events env)))
   \<or> (\<exists>c mp sr. proc_id mp = uuidv4 env \<and> record_ok mp
         \<and> snd (startProcess s config env) =
             (call c (foldl deliver s (spawn_events env)))\<lparr>processes :=
                AList.update (uuidv4 env) \<lparr>managedProcess = mp, spawnResult = sr\<rparr>
                  (processes (call c (foldl deliver s (spawn_events env))))\<rparr>)"
proof (cases "case cfg_cwd config of None \<Rightarrow> process_cwd env | Some d \<Rightarrow> Returned d")
  case (Threw m)
  then show ?thesis by (simp add: startProcess_def Let_def)
next
  case (Returned dir)
  show ?thesis
  proof (cases "validateDirectory (fs env) dir")
    case False
    then show ?thesis using Returned by (simp add: startProcess_def Let_def)
  next
    case True
    let ?c = "Spawn \<lparr>cfg_command = cfg_command config,
                      cfg_args = Some (case cfg_args config of None \<Rightarrow> [] | Some a \<Rightarrow> a),
                      cfg_cwd = Some dir, cfg_env = cfg_env config\<rparr>"
    let ?t = "call ?c (foldl deliver s (spawn_events env))"
    show ?thesis
    proof (cases "spawn_outcome env")
      case (Threw m)
      have "snd (startProcess s config env) = ?t"
        using True Returned Threw by (simp add: startProcess_def Let_def deliver_all_call)
      then show ?thesis by blast
    next
      case spawned: (Returned sr)
      let ?mp = "\<lparr>proc_id = uuidv4 env, pid = sr_pid sr, command = cfg_command config,
                  args = (case cfg_args config of None \<Rightarrow> [] | Some a \<Rightarrow> a),
                  cwd = dir, status = running, startTime = start_clock env, endTime = None,
                  exitCode = None\<rparr>"
      have "snd (startProcess s config env) =
                ?t\<lparr>processes :=
                   AList.update (uuidv4 env) \<lparr>managedProcess = ?mp, spawnResult = sr\<rparr>
                     (processes ?t)\<rparr>"
        using True Returned spawned
        by (simp add: startProcess_def Let_def generateProcessId_def deliver_all_call
            split: outcome.splits)
      moreover have "proc_id ?mp = uuidv4 env \<and> record_ok ?mp" by (simp add: record_ok_def)
      ultimately show ?thesis by blast
    qed
  qed
qed

lemma consistent_start:
  assumes "consistent s"
  shows "consistent (snd (startProcess s config env))"
proof -
  let ?t = "foldl deliver s (spawn_events env)"
  have t: "consistent ?t" using assms by (rule consistent_deliver_all)
  consider "snd (startProcess s config env) = s"
    | c where "snd (startProcess s config env) = call c ?t"
    | c mp sr where "proc_id mp = uuidv4 env" "record_ok mp"
        "snd (startProcess s config env) =
           (call c ?t)\<lparr>processes :=
              AList.update (uuidv4 env) \<lparr>managedProcess = mp, spawnResult = sr\<rparr>
                (processes (call c ?t))\<rparr>"
    using start_shape [of s config env] by blast
  then show ?thesis
  proof cases
    case 1
    then show ?thesis using assms by simp
  next
    case 2
    then show ?thesis using t by simp
  next
    case 3
    have "consistent (call c ?t)" using t by simp
    then show ?thesis unfolding 3(3) using 3(1,2) by (rule consistent_insert)
  qed
qed


lemma consistent_delete:
  assumes "consistent s"
  shows "consistent (s\<lparr>processes := AList.delete i (processes s), logBuffer := b\<rparr>)"
proof -
  have "set (AList.delete i (processes s)) \<subseteq> set (processes s)" by (rule set_delete_subset)
  then show ?thesis
    using assms by (auto simp: consistent_def distinct_delete)
qed

text \<open>
  \<open>restartProcess\<close> on an existing record: the state after the stop phase, whether that
  phase failed, and the start that follows it.
\<close>

lemma restart_eq:
  assumes "map_of (processes s) i = Some r"
  shows "restartProcess s i senv env =
     (let s1 = (if status (managedProcess r) = running then snd (stopProcess s i senv) else s);
          res = (if status (managedProcess r) = running then fst (stopProcess s i senv) else Inr ());
          started = startProcess
                      (s1\<lparr>processes := AList.delete i (processes s1),
                          logBuffer := clearLogs (logBuffer s1) i\<rparr>)
                      \<lparr>cfg_command = command (managedProcess r),
                       cfg_args = Some (args (managedProcess r)),
                       cfg_cwd = Some (cwd (managedProcess r)), cfg_env = None\<rparr> env
      in case res of
           Inl e \<Rightarrow> (Inl (ProcessErr e), s1)
         | Inr u \<Rightarrow>
             (case fst started of
                Inl e \<Rightarrow> (Inl e, snd started)
              | Inr mp \<Rightarrow> (Inr (proc_id mp), snd started)))"
  using assms
  by (simp add: restartProcess_def Let_def split_beta split: sum.splits prod.splits)

lemma restart_snd:
  assumes "map_of (processes s) i = Some r"
  shows "snd (restartProcess s i senv env) =
     (let s1 = (if status (managedProcess r) = running then snd (stopProcess s i senv) else s);
          res = (if status (managedProcess r) = running then fst (stopProcess s i senv) else Inr ())
      in case res of
           Inl e \<Rightarrow> s1
         | Inr u \<Rightarrow>
             snd (startProcess
                    (s1\<lparr>processes := AList.delete i (processes s1),
                        logBuffer := clearLogs (logBuffer s1) i\<rparr>)
                    \<lparr>cfg_command = command (managedProcess r),
                     cfg_args = Some (args (managedProcess r)),
                     cfg_cwd = Some (cwd (managedProcess r)), cfg_env = None\<rparr> env))"
  by (simp add: restart_eq [OF assms] Let_def split: sum.splits)

lemma consistent_restart:
  assumes "consistent s"
  shows "consistent (snd (restartProcess s i senv env))"
proof (cases "map_of (processes s) i")
  case None
  then show ?thesis using assms(1) by (simp add: restartProcess_def)
next
  case (Some r)
  have after: "consistent (snd (startProcess
                  (s1\<lparr>processes := AList.delete i (processes s1),
                      logBuffer := clearLogs (logBuffer s1) i\<rparr>) config env))"
    if "consistent s1" for s1 config
    using consistent_delete [OF that] by (rule consistent_start)
  show ?thesis
  proof (cases "status (managedProcess r) = running")
    case True
    have c1: "consistent (snd (stopProcess s i senv))" using assms(1) by (rule consistent_stop)
    show ?thesis
      using True c1 after [OF c1]
      by (simp add: restart_snd [OF Some] Let_def split: sum.splits)
  next
    case False
    then show ?thesis
      using after [OF assms(1)] by (simp add: restart_snd [OF Some] Let_def)
  qed
qed

lemma stopAll_sync_fields [simp]:
  "map fst (processes (snd (stopAll_sync s envs ids))) = map fst (processes s)"
  "map fst (fst (stopAll_sync s envs ids)) = ids"
  by (induction ids arbitrary: s; simp add: split_beta Let_def)+

lemma consistent_stopAll_sync:
  "consistent s \<Longrightarrow> consistent (snd (stopAll_sync s envs ids))"
  by (induction ids arbitrary: s) (simp_all add: split_beta Let_def consistent_stop_sync)

lemma stopAll_settle_fields [simp]:
  "ctl_calls (snd (stopAll_settle s envs ps)) = ctl_calls s"
  "map fst (processes (snd (stopAll_settle s envs ps))) = map fst (processes s)"
  "length (fst (stopAll_settle s envs ps)) = length ps"
proof (induction ps arbitrary: s)
  case Nil
  { case 1 show ?case by simp }
  { case 2 show ?case by simp }
  { case 3 show ?case by simp }
next
  case (Cons x ps)
  obtain i ph where x: "x = (i, ph)" by (cases x)
  { case 1 show ?case unfolding x by (cases ph) (simp_all add: split_beta Let_def Cons.IH) }
  { case 2 show ?case unfolding x by (cases ph) (simp_all add: split_beta Let_def Cons.IH) }
  { case 3 show ?case unfolding x by (cases ph) (simp_all add: split_beta Let_def Cons.IH) }
qed

lemma consistent_stopAll_settle:
  "consistent s \<Longrightarrow> consistent (snd (stopAll_settle s envs ps))"
proof (induction ps arbitrary: s)
  case Nil
  then show ?case by simp
next
  case (Cons x ps)
  obtain i ph where x: "x = (i, ph)" by (cases x)
  show ?case
    unfolding x using Cons.prems
    by (cases ph)
       (simp_all add: split_beta Let_def Cons.IH consistent_stop_resume consistent_deliver_all)
qed

lemma stopAll_fields [simp]:
  "map fst (processes (snd (stopAllProcesses s envs))) = map fst (processes s)"
  by (simp add: stopAllProcesses_def stopAll_settled_def split_beta Let_def)

lemma consistent_stopAll: "consistent s \<Longrightarrow> consistent (snd (stopAllProcesses s envs))"
  by (simp add: stopAllProcesses_def stopAll_settled_def split_beta Let_def
      consistent_stopAll_sync consistent_stopAll_settle)

lemma consistent_init: "consistent (newBgProcessManager lb)"
  by (simp add: consistent_def newBgProcessManager_def)

lemma reachable_consistent: "reachable s \<Longrightarrow> consistent s"
  by (induction rule: reachable.induct)
     (simp_all add: consistent_init consistent_start consistent_stop consistent_restart
       consistent_stopAll consistent_deliver)






lemma consistent_record:
  assumes "consistent s" and "map_of (processes s) i = Some r"
  shows "proc_id (managedProcess r) = i \<and> record_ok (managedProcess r)"
proof -
  have "(i, r) \<in> set (processes s)" using assms(2) by (rule map_of_SomeD)
  then show ?thesis using assms(1) by (auto simp: consistent_def)
qed

section \<open>End time, exit code and status\<close>

text \<open>
  Claim C4, as amended. In every reachable state, for every record: the end time is
  present exactly when the status is not \<open>running\<close>; a running record has neither end
  time nor exit code; a stopped record has both, with exit code \<open>0\<close>; a record in error
  has its end time, and an exit code only when it became \<open>error\<close> through an exit with
  a code (so the presence of an exit code implies that the status is not \<open>running\<close>).
\<close>

theorem end_time_iff_not_running:
  assumes "reachable s" and "map_of (processes s) processId = Some r"
  shows "(endTime (managedProcess r) \<noteq> None \<longleftrightarrow> status (managedProcess r) \<noteq> running)
         \<and> (exitCode (managedProcess r) \<noteq> None \<longrightarrow> status (managedProcess r) \<noteq> running)
         \<and> (status (managedProcess r) = running \<longrightarrow>
               endTime (managedProcess r) = None \<and> exitCode (managedProcess r) = None)
         \<and> (status (managedProcess r) = stopped \<longrightarrow>
               endTime (managedProcess r) \<noteq> None \<and> exitCode (managedProcess r) = Some 0)
         \<and> (status (managedProcess r) = error \<longrightarrow> endTime (managedProcess r) \<noteq> None)"
proof -
  have "record_ok (managedProcess r)"
    using consistent_record [OF reachable_consistent [OF assms(1)] assms(2)] by simp
  then show ?thesis
    by (cases "status (managedProcess r)") (auto simp: record_ok_def)
qed

theorem end_time_iff_not_running_witness:
  "reachable s_stopped
   \<and> map_of (processes s_stopped) ''a'' =
       Some \<lparr>managedProcess =
               \<lparr>proc_id = ''a'', pid = 1000, command = ''echo'', args = [''hello''],
                cwd = ''/tmp'', status = stopped, startTime = 1, endTime = Some 5,
                exitCode = Some 0\<rparr>,
             spawnResult = \<lparr>sr_pid = 1000\<rparr>\<rparr>
   \<and> (endTime \<lparr>proc_id = ''a'', pid = 1000, command = ''echo'', args = [''hello''],
                cwd = ''/tmp'', status = stopped, startTime = 1, endTime = Some 5,
                exitCode = Some (0::int)\<rparr> \<noteq> None
        \<longleftrightarrow> status \<lparr>proc_id = ''a'', pid = 1000, command = ''echo'', args = [''hello''],
                cwd = ''/tmp'', status = stopped, startTime = 1, endTime = Some (5::int),
                exitCode = Some (0::int)\<rparr> \<noteq> running)"
proof -
  have h: "map_of (processes s_stopped) ''a'' =
       Some \<lparr>managedProcess =
               \<lparr>proc_id = ''a'', pid = 1000, command = ''echo'', args = [''hello''],
                cwd = ''/tmp'', status = stopped, startTime = 1, endTime = Some 5,
                exitCode = Some 0\<rparr>,
             spawnResult = \<lparr>sr_pid = 1000\<rparr>\<rparr>"
    by (simp add: s_stopped_eq)
  show ?thesis
    using end_time_iff_not_running [OF reachable_s_stopped h] reachable_s_stopped h by simp
qed

text \<open>
  The state reached by starting \<open>a\<close> and delivering an error event of its handle has
  the record of \<open>a\<close> in status \<open>error\<close> with an end time and no exit code.
\<close>

theorem error_without_exit_code_counterexample:
  "reachable s_error
   \<and> getProcessInfo s_error ''a'' =
       Some \<lparr>proc_id = ''a'', pid = 1000, command = ''echo'', args = [''hello''],
             cwd = ''/tmp'', status = error, startTime = 1, endTime = Some 9,
             exitCode = None\<rparr>"
  using reachable_s_error
  by (simp add: s_error_def s_running_eq getProcessInfo_def onError_def
      updateProcessStatus_def Let_def)

section \<open>Restart and the identity of processes\<close>












text \<open>
  Output of the old handle that arrives while the new spawn is awaited is appended
  under the old id, after the buffer of that id was cleared: the restart of \<open>a\<close>
  returns the new id, \<open>a\<close> has no record, and the buffer of \<open>a\<close> holds the late line.
\<close>

lemma restart_late_output:
  "fst (restartProcess s_running ''a'' senv_clean env_late) = Inr ''b''
   \<and> getProcessInfo (snd (restartProcess s_running ''a'' senv_clean env_late)) ''a'' = None
   \<and> buffers (logBuffer (snd (restartProcess s_running ''a'' senv_clean env_late))) ''a'' =
       Some \<lparr>logs = [\<lparr>type = stdout, line = ''late'', timestamp = 15\<rparr>], lastUpdated = 15\<rparr>"
  by (simp add: s_running_eq restartProcess_def stopProcess_def stopProcess_sync_def
      stopProcess_resume_def senv_clean_def onExit_def onStdout_def updateProcessStatus_def
      startProcess_def env_late_def env_b_def fs_tmp_def validateDirectory_def
      generateProcessId_def call_def suspend_def resume_def clearLogs_def getProcessInfo_def
      appendStdout_def append_def getOrCreateBuffer_def parseLines_def
      enforceBufferLimits_def Let_def)


section \<open>Stopping all processes\<close>
















end
